theory Spec2Isabelle
  imports Complex_Main
begin

section \<open>JavaScript numbers that may be NaN\<close>

text \<open>
  The functions of \<^verbatim>\<open>core-js-dates-tasks.js\<close> compute on JavaScript numbers. Every
  number that the functions add, subtract, multiply or compare is an integer far below
  \<open>2 ^ 53\<close> in size, where double arithmetic is exact, or it is NaN. Such a number is
  an \<open>int option\<close>: \<open>None\<close> is NaN. Arithmetic propagates NaN, and every comparison
  with NaN is false.
\<close>

type_synonym number = "int option"

definition num_add :: "number \<Rightarrow> number \<Rightarrow> number" where
  "num_add a b = (case a of None \<Rightarrow> None | Some x \<Rightarrow> (case b of None \<Rightarrow> None | Some y \<Rightarrow> Some (x + y)))"

definition num_sub :: "number \<Rightarrow> number \<Rightarrow> number" where
  "num_sub a b = (case a of None \<Rightarrow> None | Some x \<Rightarrow> (case b of None \<Rightarrow> None | Some y \<Rightarrow> Some (x - y)))"

definition num_mul :: "number \<Rightarrow> number \<Rightarrow> number" where
  "num_mul a b = (case a of None \<Rightarrow> None | Some x \<Rightarrow> (case b of None \<Rightarrow> None | Some y \<Rightarrow> Some (x * y)))"

definition num_abs :: "number \<Rightarrow> number" where
  "num_abs a = (case a of None \<Rightarrow> None | Some x \<Rightarrow> Some \<bar>x\<bar>)"

definition num_gt :: "number \<Rightarrow> number \<Rightarrow> bool" where
  "num_gt a b = (case a of None \<Rightarrow> False | Some x \<Rightarrow> (case b of None \<Rightarrow> False | Some y \<Rightarrow> x > y))"

definition num_ge :: "number \<Rightarrow> number \<Rightarrow> bool" where
  "num_ge a b = (case a of None \<Rightarrow> False | Some x \<Rightarrow> (case b of None \<Rightarrow> False | Some y \<Rightarrow> x \<ge> y))"

definition num_le :: "number \<Rightarrow> number \<Rightarrow> bool" where
  "num_le a b = (case a of None \<Rightarrow> False | Some x \<Rightarrow> (case b of None \<Rightarrow> False | Some y \<Rightarrow> x \<le> y))"

definition num_lt :: "number \<Rightarrow> number \<Rightarrow> bool" where
  "num_lt a b = (case a of None \<Rightarrow> False | Some x \<Rightarrow> (case b of None \<Rightarrow> False | Some y \<Rightarrow> x < y))"

text \<open>The remainder operator \<^verbatim>\<open>%\<close> of JavaScript truncates: the result has the sign of the
  dividend, and a zero divisor gives NaN.\<close>

definition js_rem :: "int \<Rightarrow> int \<Rightarrow> int" where
  "js_rem a b = sgn a * (\<bar>a\<bar> mod \<bar>b\<bar>)"

definition num_rem :: "number \<Rightarrow> number \<Rightarrow> number" where
  "num_rem a b = (case a of None \<Rightarrow> None | Some x \<Rightarrow>
     (case b of None \<Rightarrow> None | Some y \<Rightarrow> if y = 0 then None else Some (js_rem x y)))"

text \<open>
  A quotient need not be an integer. The source divides a difference of time values by
  1000, 3600 and 24, adds 1 and divides by 7, and takes \<^verbatim>\<open>Math.floor\<close>,
  \<^verbatim>\<open>Math.ceil\<close> or \<^verbatim>\<open>%\<close> of the result. Such a number is a \<open>rat option\<close>,
  computed exactly. Where the exact quotient is an integer, every double division on the
  way yields an integer and is exact; where it is not, it differs from the nearest integer
  by more than \<open>10\<^sup>-\<^sup>9\<close>, far more than the rounding error of a few double
  operations on values below \<open>10\<^sup>9\<close>: floor and ceiling of the exact quotient are those
  of the computed one.
\<close>

type_synonym fraction = "rat option"

definition frac_of_num :: "number \<Rightarrow> fraction" where
  "frac_of_num a = map_option of_int a"

definition frac_div :: "fraction \<Rightarrow> fraction \<Rightarrow> fraction" where
  "frac_div a b = (case a of None \<Rightarrow> None | Some x \<Rightarrow>
     (case b of None \<Rightarrow> None | Some y \<Rightarrow> if y = 0 then None else Some (x / y)))"

definition frac_add :: "fraction \<Rightarrow> fraction \<Rightarrow> fraction" where
  "frac_add a b = (case a of None \<Rightarrow> None | Some x \<Rightarrow> (case b of None \<Rightarrow> None | Some y \<Rightarrow> Some (x + y)))"





definition Math_ceil :: "fraction \<Rightarrow> number" where
  "Math_ceil a = map_option ceiling a"


section \<open>Strings\<close>

text \<open>\<^verbatim>\<open>String.prototype.split\<close> with a one-character separator.\<close>

fun split :: "char \<Rightarrow> string \<Rightarrow> string list" where
  "split c [] = [[]]"
| "split c (x # xs) =
     (if x = c then [] # split c xs
      else (case split c xs of [] \<Rightarrow> [[x]] | w # ws \<Rightarrow> (x # w) # ws))"

text \<open>An array element; beyond the end it is \<^verbatim>\<open>undefined\<close>, here \<open>None\<close>.\<close>

definition element :: "'a list \<Rightarrow> nat \<Rightarrow> 'a option" where
  "element xs i = (if i < length xs then Some (xs ! i) else None)"

text \<open>\<open>ToNumber\<close> of a string, for the strings made of decimal digits only, which is what
  the components of a date in \<^verbatim>\<open>DD-MM-YYYY\<close> are; the empty string is 0. Every other
  string is taken to NaN here, while JavaScript also reads blanks, signs, fractions,
  exponents and other radixes. \<^verbatim>\<open>undefined\<close> is NaN.\<close>

definition decimalDigits :: string where
  "decimalDigits = ''0123456789''"

definition digitValue :: "char \<Rightarrow> nat option" where
  "digitValue c = map_of (zip decimalDigits [0 ..< 10]) c"

fun digitsValue :: "nat \<Rightarrow> string \<Rightarrow> nat option" where
  "digitsValue acc [] = Some acc"
| "digitsValue acc (c # cs) =
     (case digitValue c of None \<Rightarrow> None | Some v \<Rightarrow> digitsValue (10 * acc + v) cs)"

definition ToNumber :: "string option \<Rightarrow> number" where
  "ToNumber s = (case s of None \<Rightarrow> None | Some cs \<Rightarrow> map_option int (digitsValue 0 cs))"

text \<open>\<^verbatim>\<open>Number.prototype.toString\<close> of an integer or NaN, and \<^verbatim>\<open>padStart\<close>.\<close>

definition digitChar :: "nat \<Rightarrow> char" where
  "digitChar n = decimalDigits ! n"

fun digits :: "nat \<Rightarrow> string" where
  "digits n = (if n < 10 then [digitChar n] else digits (n div 10) @ [digitChar (n mod 10)])"

definition toString :: "number \<Rightarrow> string" where
  "toString a = (case a of None \<Rightarrow> ''NaN''
     | Some x \<Rightarrow> if x < 0 then CHR ''-'' # digits (nat (- x)) else digits (nat x))"

definition padStart :: "nat \<Rightarrow> char \<Rightarrow> string \<Rightarrow> string" where
  "padStart n c s = replicate (n - length s) c @ s"

section \<open>The Date object of ECMA-262\<close>

text \<open>
  The source calls the built-in \<^verbatim>\<open>Date\<close>. Its arithmetic is that of ECMA-262
  (section "Date Objects"): a time value is a number of milliseconds since
  1970-01-01T00:00:00Z, or NaN; the abstract operations below are named as in the standard.
  \<open>YearFromTime\<close> is given there as the largest year whose first instant is not after
  the time; here it is computed from an estimate that is off by one year at most, and
  lemma \<open>YearFromDay_bounds\<close> shows that it is that year.

  Local time is the time value plus the offset of the environment's time zone in
  milliseconds, \<open>LocalTZA\<close> of the standard. The offset depends on the instant where the
  zone has daylight saving, so a zone is a pair of functions: the offset at an instant
  given in UTC, and the offset at a local time. The zone is a parameter of every function
  that reads or builds local fields.
\<close>

record TimeZone =
  offsetAtUTC :: "int \<Rightarrow> int"
  offsetAtLocal :: "int \<Rightarrow> int"

definition LocalTZA :: "TimeZone \<Rightarrow> int \<Rightarrow> bool \<Rightarrow> int" where
  "LocalTZA zone t isUTC = (if isUTC then offsetAtUTC zone t else offsetAtLocal zone t)"

text \<open>A zone whose offset never changes, and a zone with one daylight-saving period: its
  offset is \<open>dst\<close> from the instant \<open>startUTC\<close> up to the instant \<open>endUTC\<close> and \<open>std\<close>
  otherwise. A local time that the clocks skip at the start of the period is read with the
  offset before the change, and a local time that occurs twice at its end is the earlier
  of the two instants, as the standard has it.\<close>

definition fixedZone :: "int \<Rightarrow> TimeZone" where
  "fixedZone tza = \<lparr>offsetAtUTC = (\<lambda>t. tza), offsetAtLocal = (\<lambda>t. tza)\<rparr>"

definition dstZone :: "int \<Rightarrow> int \<Rightarrow> int \<Rightarrow> int \<Rightarrow> TimeZone" where
  "dstZone std dst startUTC endUTC =
     \<lparr>offsetAtUTC = (\<lambda>t. if startUTC \<le> t \<and> t < endUTC then dst else std),
      offsetAtLocal = (\<lambda>t. if startUTC + dst \<le> t \<and> t < endUTC + dst then dst else std)\<rparr>"

text \<open>Three such zones, each with the daylight-saving period of one year of a real zone:
  America/New\_York in 2024 (from 2024-03-10T07:00Z to 2024-11-03T06:00Z, four hours
  behind UTC instead of five) and in 1991 (from 1991-04-07T07:00Z to 1991-10-27T06:00Z),
  and America/Sao\_Paulo in the summer of 2017 to 2018 (from 2017-10-15T03:00Z to
  2018-02-18T02:00Z, two hours behind UTC instead of three).\<close>

definition newYork2024 :: TimeZone where
  "newYork2024 = dstZone (- 18000000) (- 14400000) 1710054000000 1730613600000"

definition newYork1991 :: TimeZone where
  "newYork1991 = dstZone (- 18000000) (- 14400000) 671007600000 688543200000"

definition saoPaulo2018 :: TimeZone where
  "saoPaulo2018 = dstZone (- 10800000) (- 7200000) 1508036400000 1518919200000"

definition msPerDay :: int where
  "msPerDay = 86400000"

definition Day :: "int \<Rightarrow> int" where
  "Day t = t div msPerDay"

definition TimeWithinDay :: "int \<Rightarrow> int" where
  "TimeWithinDay t = t mod msPerDay"

definition DaysInYear :: "int \<Rightarrow> int" where
  "DaysInYear y =
     (if y mod 4 \<noteq> 0 then 365
      else if y mod 100 \<noteq> 0 then 366
      else if y mod 400 \<noteq> 0 then 365
      else 366)"

definition DayFromYear :: "int \<Rightarrow> int" where
  "DayFromYear y =
     365 * (y - 1970) + (y - 1969) div 4 - (y - 1901) div 100 + (y - 1601) div 400"

definition YearFromDay :: "int \<Rightarrow> int" where
  "YearFromDay d =
     (let y = 1970 + (400 * d) div 146097
      in if DayFromYear (y + 1) \<le> d then y + 1
         else if d < DayFromYear y then y - 1
         else y)"

definition YearFromTime :: "int \<Rightarrow> int" where
  "YearFromTime t = YearFromDay (Day t)"

definition InLeapYear :: "int \<Rightarrow> int" where
  "InLeapYear t = (if DaysInYear (YearFromTime t) = 366 then 1 else 0)"

definition DayWithinYear :: "int \<Rightarrow> int" where
  "DayWithinYear t = Day t - DayFromYear (YearFromTime t)"

definition MonthFromTime :: "int \<Rightarrow> int" where
  "MonthFromTime t =
     (let d = DayWithinYear t; l = InLeapYear t
      in if d < 31 then 0
         else if d < 59 + l then 1
         else if d < 90 + l then 2
         else if d < 120 + l then 3
         else if d < 151 + l then 4
         else if d < 181 + l then 5
         else if d < 212 + l then 6
         else if d < 243 + l then 7
         else if d < 273 + l then 8
         else if d < 304 + l then 9
         else if d < 334 + l then 10
         else 11)"

definition DateFromTime :: "int \<Rightarrow> int" where
  "DateFromTime t =
     (let d = DayWithinYear t; l = InLeapYear t; m = MonthFromTime t
      in if m = 0 then d + 1
         else if m = 1 then d - 30
         else if m = 2 then d - 58 - l
         else if m = 3 then d - 89 - l
         else if m = 4 then d - 119 - l
         else if m = 5 then d - 150 - l
         else if m = 6 then d - 180 - l
         else if m = 7 then d - 211 - l
         else if m = 8 then d - 242 - l
         else if m = 9 then d - 272 - l
         else if m = 10 then d - 303 - l
         else d - 333 - l)"

definition WeekDay :: "int \<Rightarrow> int" where
  "WeekDay t = (Day t + 4) mod 7"

definition LocalTime :: "TimeZone \<Rightarrow> int \<Rightarrow> int" where
  "LocalTime zone t = t + LocalTZA zone t True"

definition UTC :: "TimeZone \<Rightarrow> int \<Rightarrow> int" where
  "UTC zone t = t - LocalTZA zone t False"

text \<open>\<open>MakeDay\<close> of the standard looks for the first day of month \<open>month mod 12\<close> of year
  \<open>year + month div 12\<close> and adds \<open>date - 1\<close> days: a month or a day out of range
  carries over. \<open>DayOfMonthStart\<close> is the day within the year of the first of a month.\<close>

definition DayOfMonthStart :: "int \<Rightarrow> int \<Rightarrow> int" where
  "DayOfMonthStart l mn =
     (if mn = 0 then 0
      else if mn = 1 then 31
      else if mn = 2 then 59 + l
      else if mn = 3 then 90 + l
      else if mn = 4 then 120 + l
      else if mn = 5 then 151 + l
      else if mn = 6 then 181 + l
      else if mn = 7 then 212 + l
      else if mn = 8 then 243 + l
      else if mn = 9 then 273 + l
      else if mn = 10 then 304 + l
      else 334 + l)"

definition MakeDay :: "int \<Rightarrow> int \<Rightarrow> int \<Rightarrow> int" where
  "MakeDay year month date =
     (let ym = year + month div 12; mn = month mod 12;
          l = (if DaysInYear ym = 366 then 1 else 0)
      in DayFromYear ym + DayOfMonthStart l mn + date - 1)"

definition MakeTime :: "int \<Rightarrow> int \<Rightarrow> int \<Rightarrow> int \<Rightarrow> int" where
  "MakeTime hour minute sec ms = hour * 3600000 + minute * 60000 + sec * 1000 + ms"

definition MakeDate :: "int \<Rightarrow> int \<Rightarrow> int" where
  "MakeDate day time = day * msPerDay + time"

definition maxTime :: int where
  "maxTime = 8640000000000000"

definition TimeClip :: "int \<Rightarrow> number" where
  "TimeClip t = (if \<bar>t\<bar> > maxTime then None else Some t)"

text \<open>A \<^verbatim>\<open>Date\<close> object holds a time value; \<^verbatim>\<open>getTime()\<close> reads it. An Invalid Date
  holds NaN.\<close>

datatype Date = Date (getTime: number)

definition validDate :: "Date \<Rightarrow> bool" where
  "validDate date = (case getTime date of None \<Rightarrow> False | Some t \<Rightarrow> \<bar>t\<bar> \<le> maxTime)"

text \<open>\<^verbatim>\<open>new Date(value)\<close> for a number.\<close>

definition newDate :: "number \<Rightarrow> Date" where
  "newDate v = (case v of None \<Rightarrow> Date None | Some t \<Rightarrow> Date (TimeClip t))"

text \<open>\<^verbatim>\<open>new Date(year, monthIndex, day)\<close>: local midnight of that day. A year from 0 to
  99 stands for 1900 to 1999. A NaN argument gives an Invalid Date.\<close>

definition newDateYMD :: "TimeZone \<Rightarrow> number \<Rightarrow> number \<Rightarrow> number \<Rightarrow> Date" where
  "newDateYMD zone year month day =
     (case year of None \<Rightarrow> Date None | Some y \<Rightarrow>
      (case month of None \<Rightarrow> Date None | Some m \<Rightarrow>
       (case day of None \<Rightarrow> Date None | Some dt \<Rightarrow>
          (let yr = (if 0 \<le> y \<and> y \<le> 99 then 1900 + y else y);
               finalDate = MakeDate (MakeDay yr m dt) (MakeTime 0 0 0 0)
           in Date (TimeClip (UTC zone finalDate))))))"

definition getDay :: "TimeZone \<Rightarrow> Date \<Rightarrow> number" where
  "getDay zone date = map_option (\<lambda>t. WeekDay (LocalTime zone t)) (getTime date)"

definition getDate :: "TimeZone \<Rightarrow> Date \<Rightarrow> number" where
  "getDate zone date = map_option (\<lambda>t. DateFromTime (LocalTime zone t)) (getTime date)"

definition getMonth :: "TimeZone \<Rightarrow> Date \<Rightarrow> number" where
  "getMonth zone date = map_option (\<lambda>t. MonthFromTime (LocalTime zone t)) (getTime date)"

definition getFullYear :: "TimeZone \<Rightarrow> Date \<Rightarrow> number" where
  "getFullYear zone date = map_option (\<lambda>t. YearFromTime (LocalTime zone t)) (getTime date)"

text \<open>The local calendar day of a valid date, as a day number.\<close>

definition localDay :: "TimeZone \<Rightarrow> Date \<Rightarrow> number" where
  "localDay zone date = map_option (\<lambda>t. Day (LocalTime zone t)) (getTime date)"

definition localTimeOfDay :: "TimeZone \<Rightarrow> Date \<Rightarrow> number" where
  "localTimeOfDay zone date = map_option (\<lambda>t. TimeWithinDay (LocalTime zone t)) (getTime date)"

section \<open>The functions of core-js-dates-tasks.js\<close>

definition getNextFriday :: "TimeZone \<Rightarrow> Date \<Rightarrow> Date" where
  "getNextFriday zone date =
     (let millisecondsPerDay = Some (1000 * 60 * 60 * 24);
          day = getDay zone date;
          diff = num_sub (Some 5) day;
          resultDate =
            (if num_gt diff (Some 0)
             then num_add (getTime date) (num_mul diff millisecondsPerDay)
             else num_add (getTime date)
                    (num_mul (num_sub (Some 7) (num_abs diff)) millisecondsPerDay))
      in newDate resultDate)"

fun getNextFridayThe13th :: "nat \<Rightarrow> TimeZone \<Rightarrow> Date \<Rightarrow> Date option" where
  "getNextFridayThe13th 0 zone date = None"
| "getNextFridayThe13th (Suc fuel) zone date =
     (let millisecondsPerDay = Some (1000 * 60 * 60 * 24);
          day = getDay zone date;
          diff = num_sub (Some 5) day;
          resultDate =
            (if num_gt diff (Some 0)
             then num_add (getTime date) (num_mul diff millisecondsPerDay)
             else num_add (getTime date)
                    (num_mul (num_sub (Some 7) (num_abs diff)) millisecondsPerDay))
      in if getDate zone (newDate resultDate) = Some 13 then Some (newDate resultDate)
         else getNextFridayThe13th fuel zone (newDate resultDate))"

definition getQuarter :: "TimeZone \<Rightarrow> Date \<Rightarrow> int" where
  "getQuarter zone date =
     (let month = getMonth zone date;
          quarter = 0;
          quarter = (if num_ge month (Some 0) \<and> num_le month (Some 2) then 1 else quarter);
          quarter = (if num_ge month (Some 3) \<and> num_le month (Some 5) then 2 else quarter);
          quarter = (if num_ge month (Some 6) \<and> num_le month (Some 8) then 3 else quarter);
          quarter = (if num_ge month (Some 9) \<and> num_le month (Some 11) then 4 else quarter)
      in quarter)"

definition isLeapYear :: "TimeZone \<Rightarrow> Date \<Rightarrow> bool" where
  "isLeapYear zone date =
     (let year = getFullYear zone date
      in if num_rem year (Some 400) = Some 0
            \<or> (num_rem year (Some 4) = Some 0 \<and> num_rem year (Some 100) \<noteq> Some 0)
         then True
         else False)"

definition getCountDaysInMonth :: "TimeZone \<Rightarrow> int \<Rightarrow> int \<Rightarrow> fraction" where
  "getCountDaysInMonth zone month year =
     (let date1 = newDateYMD zone (Some year) (Some (month - 1)) (Some 1);
          date2 = newDateYMD zone (Some year) (Some month) (Some 1);
          diff = num_sub (getTime date2) (getTime date1);
          days = frac_div (frac_div (frac_div (frac_of_num diff) (Some 1000)) (Some 3600)) (Some 24)
      in days)"



function firstMondayLoop :: "int \<Rightarrow> TimeZone \<Rightarrow> number \<Rightarrow> Date \<Rightarrow> Date" where
  "firstMondayLoop i zone year firstDayOfYear =
     (if i \<le> 7
      then (let firstDayOfYear = newDateYMD zone year (Some 0) (Some (i + 1))
            in if getDay zone firstDayOfYear = Some 1 then firstDayOfYear
               else firstMondayLoop (i + 1) zone year firstDayOfYear)
      else firstDayOfYear)"
  by pat_completeness auto
termination
  by (relation "measure (\<lambda>(i, zone, year, f). nat (8 - i))") auto

definition getWeekNumberByDate :: "TimeZone \<Rightarrow> Date \<Rightarrow> number" where
  "getWeekNumberByDate zone date =
     (let year = getFullYear zone (newDate (getTime date));
          firstDayOfYear = newDateYMD zone year (Some 0) (Some 1);
          firstDayOfYear =
            (if num_lt (getDay zone firstDayOfYear) (Some 1) \<or> num_gt (getDay zone firstDayOfYear) (Some 4)
             then firstMondayLoop 1 zone year firstDayOfYear
             else firstDayOfYear);
          givenDate = getTime date;
          diff = num_sub givenDate (getTime firstDayOfYear)
      in if num_le diff (Some 0) then Some 1
         else (let weeks = Math_ceil
                 (frac_div
                    (frac_add
                       (frac_div (frac_div (frac_div (frac_of_num diff) (Some 1000)) (Some 3600)) (Some 24))
                       (Some 1))
                    (Some 7))
               in weeks))"

record DatePeriod =
  start :: string
  end' :: string

function listOfDatesLoop :: "Date \<Rightarrow> Date \<Rightarrow> Date list \<Rightarrow> Date list" where
  "listOfDatesLoop day endDate listOfDates =
     (if num_le (getTime day) (getTime endDate)
      then listOfDatesLoop (newDate (num_add (getTime day) (Some (1000 * 60 * 60 * 24)))) endDate
             (listOfDates @ [day])
      else listOfDates)"
  by pat_completeness auto
termination
  by (relation "measure (\<lambda>(day, endDate, l).
        case getTime day of None \<Rightarrow> 0
        | Some t \<Rightarrow> (case getTime endDate of None \<Rightarrow> 0 | Some e \<Rightarrow> nat (e - t + 1)))")
     (auto simp: num_le_def num_add_def newDate_def TimeClip_def split: option.splits)

fun pushTimes :: "nat \<Rightarrow> 'a \<Rightarrow> 'a list \<Rightarrow> 'a list" where
  "pushTimes 0 v xs = xs"
| "pushTimes (Suc n) v xs = pushTimes n v (xs @ [v])"

definition getWorkSchedule :: "TimeZone \<Rightarrow> DatePeriod \<Rightarrow> nat \<Rightarrow> nat \<Rightarrow> string list" where
  "getWorkSchedule zone period countWorkDays countOffDays =
     (let startDateComponents = split CHR ''-'' (start period);
          startDate = newDateYMD zone
            (ToNumber (element startDateComponents 2))
            (num_sub (ToNumber (element startDateComponents 1)) (Some 1))
            (ToNumber (element startDateComponents 0));
          endDateComponents = split CHR ''-'' (end' period);
          endDate = newDateYMD zone
            (ToNumber (element endDateComponents 2))
            (num_sub (ToNumber (element endDateComponents 1)) (Some 1))
            (ToNumber (element endDateComponents 0));
          listOfDates = listOfDatesLoop startDate endDate [];
          arrayOfSchedule = pushTimes countOffDays (0::int) (pushTimes countWorkDays 1 [])
      in map (\<lambda>date.
               padStart 2 CHR ''0'' (toString (getDate zone date)) @ ''-'' @
               padStart 2 CHR ''0'' (toString (num_add (getMonth zone date) (Some 1))) @ ''-'' @
               toString (getFullYear zone date))
           (map fst
             (filter (\<lambda>(date, index).
                  if index < length arrayOfSchedule
                  then (if element arrayOfSchedule index = Some 0 then False else True)
                  else if index \<ge> length arrayOfSchedule
                  then (if length arrayOfSchedule \<noteq> 0
                           \<and> element arrayOfSchedule (index mod length arrayOfSchedule) = Some 0
                        then False else True)
                  else True)
               (zip listOfDates [0 ..< length listOfDates]))))"


declare firstMondayLoop.simps [simp del]

declare listOfDatesLoop.simps [simp del]

section \<open>Auxiliary definitions for the proofs\<close>

text \<open>The number of days that \<open>getNextFriday\<close> adds to a date whose local weekday is
  \<open>w\<close>: the two branches of the source, on an integer weekday.\<close>

definition fridayDelta :: "int \<Rightarrow> int" where
  "fridayDelta w = (if 5 - w > 0 then 5 - w else 7 - \<bar>5 - w\<bar>)"

text \<open>The year that the \<^verbatim>\<open>Date\<close> constructor takes for a year argument, and the
  number of leap days of a year.\<close>

definition adjustYear :: "int \<Rightarrow> int" where
  "adjustYear y = (if 0 \<le> y \<and> y \<le> 99 then 1900 + y else y)"

definition leapDay :: "int \<Rightarrow> int" where
  "leapDay y = (if DaysInYear y = 366 then 1 else 0)"

text \<open>The number of days of month \<open>m\<close> (from 0) in a year with \<open>l\<close> leap days.\<close>

definition DaysInMonth :: "int \<Rightarrow> int \<Rightarrow> int" where
  "DaysInMonth l m =
     (if m = 1 then 28 + l
      else if m = 3 \<or> m = 5 \<or> m = 8 \<or> m = 10 then 30
      else 31)"

text \<open>
  The week number as the specification words it: week 1 is the week that contains the
  first Thursday of the year, weeks start on Monday, and a date before the start of week 1
  has number 1. \<open>isoWeekOneStart\<close> is the day number of the Monday that starts week 1 of
  a year; the weekday of day number \<open>d\<close> is \<open>(d + 4) mod 7\<close>, Sunday being 0.
\<close>

definition isoWeekOneStart :: "int \<Rightarrow> int" where
  "isoWeekOneStart y =
     (let jan1 = MakeDay y 0 1;
          firstThursday = jan1 + (4 - (jan1 + 4) mod 7) mod 7
      in firstThursday - 3)"

definition isoWeekNumber_spec :: "TimeZone \<Rightarrow> Date \<Rightarrow> number" where
  "isoWeekNumber_spec zone date =
     (case getTime date of None \<Rightarrow> None
      | Some t \<Rightarrow>
         (let d = Day (LocalTime zone t);
              s = isoWeekOneStart (YearFromDay d)
          in if d < s then Some 1 else Some ((d - s) div 7 + 1)))"




text \<open>
  For the search for a Friday the 13th: the day of the month of a day number, and the
  distance in days from the first of January of a year to the 13th of the \<open>k\<close>-th month
  after month \<open>m\<close> of that year, where \<open>l0\<close> and \<open>l1\<close> are the leap days of the year and
  of the next one (the months looked at end in February of the second year after).
\<close>

definition DateOfDay :: "int \<Rightarrow> int" where
  "DateOfDay d = DateFromTime (d * msPerDay)"

definition offsetOf13th :: "int \<Rightarrow> int \<Rightarrow> int \<Rightarrow> int \<Rightarrow> int" where
  "offsetOf13th l0 l1 m k =
     (let yy = (m + k) div 12; mm = (m + k) mod 12
      in (if yy = 0 then DayOfMonthStart l0 mm
          else if yy = 1 then 365 + l0 + DayOfMonthStart l1 mm
          else 730 + l0 + l1 + DayOfMonthStart 0 mm) + 12)"

text \<open>
  For the work schedule: the month of a day number; a date written as \<^verbatim>\<open>DD-MM-YYYY\<close>,
  day and month on two digits and the year on four; the same for a day number; and the
  text that the source makes of a day number, where the year is not padded.
\<close>

definition MonthOfDay :: "int \<Rightarrow> int" where
  "MonthOfDay d = MonthFromTime (d * msPerDay)"

definition formatDDMMYYYY :: "int \<Rightarrow> int \<Rightarrow> int \<Rightarrow> string" where
  "formatDDMMYYYY dd mm yyyy =
     padStart 2 CHR ''0'' (toString (Some dd)) @ ''-'' @
     padStart 2 CHR ''0'' (toString (Some mm)) @ ''-'' @
     padStart 4 CHR ''0'' (toString (Some yyyy))"

definition formatDay :: "int \<Rightarrow> string" where
  "formatDay d = formatDDMMYYYY (DateOfDay d) (MonthOfDay d + 1) (YearFromDay d)"

definition sourceFormatDay :: "int \<Rightarrow> string" where
  "sourceFormatDay d =
     padStart 2 CHR ''0'' (toString (Some (DateOfDay d))) @ ''-'' @
     padStart 2 CHR ''0'' (toString (Some (MonthOfDay d + 1))) @ ''-'' @
     toString (Some (YearFromDay d))"

declare digits.simps [simp del]

section \<open>Time zones\<close>

lemma LocalTime_fixed: "LocalTime (fixedZone tza) t = t + tza"
  by (simp add: LocalTime_def LocalTZA_def fixedZone_def)

lemma UTC_fixed: "UTC (fixedZone tza) t = t - tza"
  by (simp add: UTC_def LocalTZA_def fixedZone_def)

lemma LocalTime_dstZone:
  "LocalTime (dstZone std dst startUTC endUTC) t =
     t + (if startUTC \<le> t \<and> t < endUTC then dst else std)"
  by (simp add: LocalTime_def LocalTZA_def dstZone_def)

lemma UTC_dstZone:
  "UTC (dstZone std dst startUTC endUTC) t =
     t - (if startUTC + dst \<le> t \<and> t < endUTC + dst then dst else std)"
  by (simp add: UTC_def LocalTZA_def dstZone_def)

section \<open>Days, weekdays and the next Friday\<close>

lemma WeekDay_range: "0 \<le> WeekDay t \<and> WeekDay t \<le> 6"
  by (simp add: WeekDay_def) 

lemma fridayDelta_range: "0 \<le> w \<Longrightarrow> w \<le> 6 \<Longrightarrow> 1 \<le> fridayDelta w \<and> fridayDelta w \<le> 7"
  by (simp add: fridayDelta_def)

lemma Day_add_days: "Day (t + k * msPerDay) = Day t + k"
  by (simp add: Day_def msPerDay_def)

lemma TimeWithinDay_add_days: "TimeWithinDay (t + k * msPerDay) = TimeWithinDay t"
  by (simp add: TimeWithinDay_def msPerDay_def)

lemma WeekDay_add_days: "WeekDay (t + k * msPerDay) = (WeekDay t + k) mod 7"
  by (simp add: WeekDay_def Day_add_days mod_simps add.assoc add.commute add.left_commute)

lemma WeekDay_fridayDelta: "WeekDay (t + fridayDelta (WeekDay t) * msPerDay) = 5"
proof -
  have "0 \<le> WeekDay t \<and> WeekDay t \<le> 6" by (rule WeekDay_range)
  then have "(WeekDay t + fridayDelta (WeekDay t)) mod 7 = 5"
    by (auto simp: fridayDelta_def)
  then show ?thesis by (simp add: WeekDay_add_days)
qed

lemma getNextFriday_valid:
  "getNextFriday zone (Date (Some t)) =
     newDate (Some (t + fridayDelta (WeekDay (LocalTime zone t)) * msPerDay))"
  by (simp add: getNextFriday_def getDay_def num_sub_def num_gt_def num_add_def num_mul_def
      num_abs_def fridayDelta_def msPerDay_def Let_def)

lemma LocalTime_add: "LocalTime (fixedZone tza) (t + k) = LocalTime (fixedZone tza) t + k"
  by (simp add: LocalTime_fixed)

lemma friday_between:
  assumes "WeekDay x = 5" "Day t < Day x"
  shows "Day t + fridayDelta (WeekDay t) \<le> Day x"
proof -
  have "(Day x + 4) mod 7 = 5" using assms(1) by (simp add: WeekDay_def)
  moreover have "WeekDay t = (Day t + 4) mod 7" by (simp add: WeekDay_def)
  ultimately show ?thesis using assms(2) unfolding fridayDelta_def
    by presburger
qed

lemma getTime_newDate_in_range:
  "\<bar>t\<bar> \<le> maxTime \<Longrightarrow> newDate (Some t) = Date (Some t)"
  by (simp add: newDate_def TimeClip_def)

lemma getNextFriday_result_in_range:
  assumes "\<bar>t\<bar> \<le> maxTime"
    and "t + fridayDelta (WeekDay (LocalTime zone t)) * msPerDay \<le> maxTime"
  shows "getNextFriday zone (Date (Some t)) =
           Date (Some (t + fridayDelta (WeekDay (LocalTime zone t)) * msPerDay))"
proof -
  let ?k = "fridayDelta (WeekDay (LocalTime zone t))"
  have k: "1 \<le> ?k \<and> ?k \<le> 7"
    using WeekDay_range [of "LocalTime zone t"] by (simp add: fridayDelta_range)
  then have "t \<le> t + ?k * msPerDay" by (simp add: msPerDay_def)
  with assms have "\<bar>t + ?k * msPerDay\<bar> \<le> maxTime" by linarith
  then show ?thesis
    by (simp add: getNextFriday_valid getTime_newDate_in_range)
qed

lemma getNextFriday_in_range:
  assumes "\<bar>t\<bar> \<le> maxTime" and "t + 7 * msPerDay \<le> maxTime"
  shows "getNextFriday zone (Date (Some t)) =
           Date (Some (t + fridayDelta (WeekDay (LocalTime zone t)) * msPerDay))"
proof -
  let ?k = "fridayDelta (WeekDay (LocalTime zone t))"
  have "1 \<le> ?k \<and> ?k \<le> 7"
    using WeekDay_range [of "LocalTime zone t"] by (simp add: fridayDelta_range)
  then have "t + ?k * msPerDay \<le> t + 7 * msPerDay" by (simp add: msPerDay_def)
  with assms(2) have "t + ?k * msPerDay \<le> maxTime" by linarith
  with assms(1) show ?thesis by (rule getNextFriday_result_in_range)
qed

text \<open>
  Claim C5, amended. In a zone with a constant offset, for every valid date whose time
  value, with the days that the source adds to it (\<open>5 - day\<close> if that is positive,
  \<open>7 - \<bar>5 - day\<bar>\<close> otherwise), does not exceed the end of the range of time values,
  \<open>getNextFriday\<close> returns a valid date on a Friday (local weekday 5) whose calendar day
  is strictly after the calendar day of the input, and no Friday lies on a calendar day
  strictly between the two: it is the smallest later Friday. If the input is itself on a
  Friday, the result is exactly seven days later.
\<close>

theorem getNextFriday_smallest_later_friday:
  assumes "validDate date" and "getTime date = Some t"
    and "t + fridayDelta (WeekDay (LocalTime (fixedZone tza) t)) * msPerDay \<le> maxTime"
  shows "\<exists>r. getTime (getNextFriday (fixedZone tza) date) = Some r
           \<and> getDay (fixedZone tza) (getNextFriday (fixedZone tza) date) = Some 5
           \<and> Day (LocalTime (fixedZone tza) t) < Day (LocalTime (fixedZone tza) r)
           \<and> (\<forall>x. WeekDay (LocalTime (fixedZone tza) x) = 5 \<and> Day (LocalTime (fixedZone tza) t) < Day (LocalTime (fixedZone tza) x)
                  \<longrightarrow> Day (LocalTime (fixedZone tza) r) \<le> Day (LocalTime (fixedZone tza) x))
           \<and> (getDay (fixedZone tza) date = Some 5 \<longrightarrow> r = t + 7 * msPerDay)"
proof -
  let ?w = "WeekDay (LocalTime (fixedZone tza) t)"
  let ?r = "t + fridayDelta ?w * msPerDay"
  have d: "date = Date (Some t)" using assms(2) by (cases date) simp
  have rng: "\<bar>t\<bar> \<le> maxTime" using assms(1) d by (simp add: validDate_def)
  have res: "getNextFriday (fixedZone tza) date = Date (Some ?r)"
    unfolding d by (rule getNextFriday_result_in_range [OF rng assms(3)])
  have k: "1 \<le> fridayDelta ?w \<and> fridayDelta ?w \<le> 7"
    using WeekDay_range [of "LocalTime (fixedZone tza) t"] by (simp add: fridayDelta_range)
  have lt: "LocalTime (fixedZone tza) ?r = LocalTime (fixedZone tza) t + fridayDelta ?w * msPerDay"
    by (simp add: LocalTime_fixed)
  have "getTime (getNextFriday (fixedZone tza) date) = Some ?r" by (simp add: res)
  moreover have "getDay (fixedZone tza) (getNextFriday (fixedZone tza) date) = Some 5"
    by (simp add: res getDay_def lt WeekDay_fridayDelta)
  moreover have "Day (LocalTime (fixedZone tza) t) < Day (LocalTime (fixedZone tza) ?r)"
    using k by (simp add: lt Day_add_days)
  moreover have "\<forall>x. WeekDay (LocalTime (fixedZone tza) x) = 5 \<and> Day (LocalTime (fixedZone tza) t) < Day (LocalTime (fixedZone tza) x)
                  \<longrightarrow> Day (LocalTime (fixedZone tza) ?r) \<le> Day (LocalTime (fixedZone tza) x)"
    by (simp add: lt Day_add_days friday_between)
  moreover have "getDay (fixedZone tza) date = Some 5 \<longrightarrow> ?r = t + 7 * msPerDay"
    by (simp add: d getDay_def fridayDelta_def)
  ultimately show ?thesis by blast
qed

theorem getNextFriday_smallest_later_friday_witness:
  "validDate (Date (Some 1708041600000))
   \<and> getDay (fixedZone 0) (Date (Some 1708041600000)) = Some 5
   \<and> getTime (getNextFriday (fixedZone 0) (Date (Some 1708041600000))) = Some 1708646400000
   \<and> getDay (fixedZone 0) (getNextFriday (fixedZone 0) (Date (Some 1708041600000))) = Some 5"
proof -
  have v: "validDate (Date (Some 1708041600000))"
    by (simp add: validDate_def maxTime_def)
  have g: "getTime (Date (Some 1708041600000)) = Some 1708041600000" by simp
  have r: "1708041600000 + fridayDelta (WeekDay (LocalTime (fixedZone 0) 1708041600000)) * msPerDay
             \<le> maxTime"
    by (simp add: fridayDelta_def WeekDay_def LocalTime_fixed Day_def msPerDay_def maxTime_def)
  have f: "getDay (fixedZone 0) (Date (Some 1708041600000)) = Some 5"
    by (simp add: getDay_def WeekDay_def LocalTime_fixed Day_def msPerDay_def)
  from getNextFriday_smallest_later_friday [OF v g r] f
  have "getTime (getNextFriday (fixedZone 0) (Date (Some 1708041600000))) = Some (1708041600000 + 7 * msPerDay)
        \<and> getDay (fixedZone 0) (getNextFriday (fixedZone 0) (Date (Some 1708041600000))) = Some 5"
    by auto
  then show ?thesis using v f by (simp add: msPerDay_def)
qed

text \<open>The claim as stated, for every valid date, fails in two ways. At the last instant of
  the range (a Saturday) six days later is beyond the range and the result is an Invalid
  Date. And where the zone changes its offset the source still adds multiples of 24 hours:
  in New York, from Saturday 2 November 2024 at 00:30 (04:30Z), daylight saving ends
  within the six days and the result is Thursday 7 November at 23:30.\<close>

theorem getNextFriday_end_of_range_counterexample:
  "validDate (Date (Some 8640000000000000))
   \<and> getNextFriday (fixedZone 0) (Date (Some 8640000000000000)) = Date None
   \<and> getDay (fixedZone 0) (getNextFriday (fixedZone 0) (Date (Some 8640000000000000))) \<noteq> Some 5
   \<and> validDate (Date (Some 1730521800000))
   \<and> getDay newYork2024 (Date (Some 1730521800000)) = Some 6
   \<and> getNextFriday newYork2024 (Date (Some 1730521800000)) = Date (Some 1731040200000)
   \<and> getDay newYork2024 (Date (Some 1731040200000)) = Some 4"
  by (simp add: validDate_def maxTime_def getNextFriday_valid newDate_def TimeClip_def
      fridayDelta_def WeekDay_def LocalTime_fixed Day_def msPerDay_def getDay_def
      newYork2024_def LocalTime_dstZone)

text \<open>
  Claim C9, amended. In every zone, for every valid date whose time value, with the days
  that the source adds to it (\<open>5 - day\<close> if that is positive, \<open>7 - \<bar>5 - day\<bar>\<close>
  otherwise), does not exceed the end of the range of time values, the time value of
  \<open>getNextFriday date\<close> minus that of \<open>date\<close> is \<open>k * 86400000\<close> for an integer \<open>k\<close>
  from 1 to 7; the result is strictly later than the input and has the same time value
  modulo \<open>86400000\<close> (the time within the day in UTC). In a zone with a constant offset it
  also has the same local time within the day.
\<close>

theorem getNextFriday_whole_days_later:
  assumes "validDate date" and "getTime date = Some t"
    and "t + fridayDelta (WeekDay (LocalTime zone t)) * msPerDay \<le> maxTime"
  shows "\<exists>k. 1 \<le> k \<and> k \<le> 7
           \<and> num_sub (getTime (getNextFriday zone date)) (getTime date) = Some (k * 86400000)
           \<and> num_gt (getTime (getNextFriday zone date)) (getTime date)
           \<and> map_option TimeWithinDay (getTime (getNextFriday zone date))
               = map_option TimeWithinDay (getTime date)
           \<and> (\<forall>tza. zone = fixedZone tza \<longrightarrow>
                 localTimeOfDay zone (getNextFriday zone date) = localTimeOfDay zone date)"
proof -
  let ?k = "fridayDelta (WeekDay (LocalTime zone t))"
  have d: "date = Date (Some t)" using assms(2) by (cases date) simp
  have rng: "\<bar>t\<bar> \<le> maxTime" using assms(1) d by (simp add: validDate_def)
  have res: "getNextFriday zone (Date (Some t)) = Date (Some (t + ?k * msPerDay))"
    by (rule getNextFriday_result_in_range [OF rng assms(3)])
  have k: "1 \<le> ?k \<and> ?k \<le> 7"
    using WeekDay_range [of "LocalTime zone t"] by (simp add: fridayDelta_range)
  have "num_sub (getTime (getNextFriday zone date)) (getTime date) = Some (?k * 86400000)"
    by (simp add: d res num_sub_def msPerDay_def)
  moreover have "num_gt (getTime (getNextFriday zone date)) (getTime date)"
    using k by (simp add: d res num_gt_def msPerDay_def)
  moreover have "map_option TimeWithinDay (getTime (getNextFriday zone date))
               = map_option TimeWithinDay (getTime date)"
    by (simp add: d res TimeWithinDay_add_days)
  moreover have "\<forall>tza. zone = fixedZone tza \<longrightarrow>
                 localTimeOfDay zone (getNextFriday zone date) = localTimeOfDay zone date"
  proof (intro allI impI)
    fix tza
    assume z: "zone = fixedZone tza"
    define j where "j = fridayDelta (WeekDay (LocalTime (fixedZone tza) t))"
    have r: "getNextFriday (fixedZone tza) (Date (Some t)) = Date (Some (t + j * msPerDay))"
      unfolding j_def by (rule getNextFriday_result_in_range [OF rng assms(3) [unfolded z]])
    have "t + j * msPerDay + tza = (t + tza) + j * msPerDay" by simp
    then have "TimeWithinDay (t + j * msPerDay + tza) = TimeWithinDay (t + tza)"
      by (simp only: TimeWithinDay_add_days)
    then show "localTimeOfDay zone (getNextFriday zone date) = localTimeOfDay zone date"
      unfolding z d r by (simp add: localTimeOfDay_def LocalTime_fixed)
  qed
  ultimately show ?thesis using k by blast
qed

theorem getNextFriday_whole_days_later_witness:
  "validDate (Date (Some 1707825600123))
   \<and> num_sub (getTime (getNextFriday (fixedZone 0) (Date (Some 1707825600123)))) (getTime (Date (Some 1707825600123)))
       = Some (3 * 86400000)
   \<and> localTimeOfDay (fixedZone 0) (getNextFriday (fixedZone 0) (Date (Some 1707825600123)))
       = localTimeOfDay (fixedZone 0) (Date (Some 1707825600123))"
proof -
  have v: "validDate (Date (Some 1707825600123))"
    by (simp add: validDate_def maxTime_def)
  have g: "getTime (Date (Some 1707825600123)) = Some 1707825600123" by simp
  have r: "1707825600123 + fridayDelta (WeekDay (LocalTime (fixedZone 0) 1707825600123)) * msPerDay
             \<le> maxTime"
    by (simp add: fridayDelta_def WeekDay_def LocalTime_fixed Day_def msPerDay_def maxTime_def)
  from getNextFriday_whole_days_later [OF v g r]
  obtain k where k: "num_sub (getTime (getNextFriday (fixedZone 0) (Date (Some 1707825600123))))
                    (getTime (Date (Some 1707825600123))) = Some (k * 86400000)"
    and l: "\<forall>tza. fixedZone 0 = fixedZone tza \<longrightarrow>
       localTimeOfDay (fixedZone 0) (getNextFriday (fixedZone 0) (Date (Some 1707825600123)))
         = localTimeOfDay (fixedZone 0) (Date (Some 1707825600123))"
    by blast
  from l have l0: "localTimeOfDay (fixedZone 0) (getNextFriday (fixedZone 0) (Date (Some 1707825600123)))
         = localTimeOfDay (fixedZone 0) (Date (Some 1707825600123))" by blast
  have "getNextFriday (fixedZone 0) (Date (Some 1707825600123)) = Date (Some (1707825600123 + 3 * 86400000))"
    by (simp add: getNextFriday_valid newDate_def TimeClip_def maxTime_def
      fridayDelta_def WeekDay_def LocalTime_fixed Day_def msPerDay_def)
  with k l0 v show ?thesis by (simp add: num_sub_def)
qed

text \<open>At the last instant of the range the difference of the two time values is NaN. In
  New York, from Saturday 2 November 2024 at 00:30, the result is at 23:30 local time: the
  local time within the day is not kept where the offset changes.\<close>

theorem getNextFriday_difference_counterexample:
  "validDate (Date (Some 8640000000000000))
   \<and> num_sub (getTime (getNextFriday (fixedZone 0) (Date (Some 8640000000000000))))
        (getTime (Date (Some 8640000000000000))) = None
   \<and> validDate (Date (Some 1730521800000))
   \<and> localTimeOfDay newYork2024 (Date (Some 1730521800000)) = Some 1800000
   \<and> localTimeOfDay newYork2024 (getNextFriday newYork2024 (Date (Some 1730521800000)))
        = Some 84600000"
  by (simp add: validDate_def maxTime_def getNextFriday_valid newDate_def TimeClip_def
      fridayDelta_def WeekDay_def LocalTime_fixed Day_def msPerDay_def num_sub_def
      localTimeOfDay_def newYork2024_def LocalTime_dstZone TimeWithinDay_def)

text \<open>
  Claim C10. There is an input on which \<open>getQuarter\<close> returns 0, a value outside 1 to 4:
  the Invalid Date. Whenever the month of the date is not a number from 0 to 11 (the
  month of an Invalid Date is NaN), no branch fires and the initial value 0 is returned.
  This holds in every zone.
\<close>

theorem getQuarter_zero_outside_months:
  "getQuarter zone (Date None) = 0
   \<and> (\<forall>date. \<not> (num_ge (getMonth zone date) (Some 0) \<and> num_le (getMonth zone date) (Some 11))
         \<longrightarrow> getQuarter zone date = 0)"
  by (auto simp: getQuarter_def getMonth_def num_ge_def num_le_def Let_def split: option.splits)

theorem getQuarter_zero_outside_months_witness:
  "\<not> (num_ge (getMonth (fixedZone 0) (Date None)) (Some 0) \<and> num_le (getMonth (fixedZone 0) (Date None)) (Some 11))
   \<and> getQuarter (fixedZone 0) (Date None) = 0"
proof -
  have h: "\<not> (num_ge (getMonth (fixedZone 0) (Date None)) (Some 0) \<and> num_le (getMonth (fixedZone 0) (Date None)) (Some 11))"
    by (simp add: getMonth_def num_ge_def)
  with getQuarter_zero_outside_months [of "fixedZone 0"] show ?thesis by blast
qed

section \<open>Years\<close>


lemma div_lower: "0 < k \<Longrightarrow> k * (a div k) \<le> (a::int)"
  using pos_mod_sign [of k a] mult_div_mod_eq [of k a] by linarith

lemma div_upper: "0 < k \<Longrightarrow> (a::int) < k * (a div k) + k"
  using pos_mod_bound [of k a] mult_div_mod_eq [of k a] by linarith

lemma est_lower_aux:
  fixes z d q1 q2 q3 :: int
  assumes "146097 * z \<le> 400 * d" "4 * q1 \<le> z" "z + 68 < 100 * q2 + 100" "400 * q3 \<le> z + 368"
  shows "365 * (z - 1) + q1 - q2 + q3 \<le> d"
proof -
  have "400 * q1 \<le> 100 * z" using assms(2) by simp
  moreover have "4 * z + 272 < 400 * q2 + 400" using assms(3) by simp
  ultimately have "400 * (365 * (z - 1) + q1 - q2 + q3) \<le> 400 * d"
    using assms(1,4) by simp
  then show ?thesis by simp
qed

lemma est_upper_aux:
  fixes z d q1 q2 q3 :: int
  assumes "400 * d < 146097 * z + 146097" "z + 3 < 4 * q1 + 4" "100 * q2 \<le> z + 71" "z + 371 < 400 * q3 + 400"
  shows "d < 365 * (z + 2) + q1 - q2 + q3"
proof -
  have "100 * z + 300 < 400 * q1 + 400" using assms(2) by simp
  moreover have "400 * q2 \<le> 4 * z + 284" using assms(3) by simp
  ultimately have "400 * d < 400 * (365 * (z + 2) + q1 - q2 + q3)"
    using assms(1,4) by simp
  then show ?thesis by simp
qed

lemma est_lower: "DayFromYear (1970 + (400 * d) div 146097 - 1) \<le> d"
proof -
  define z where "z = (400 * d) div 146097"
  have z: "146097 * z \<le> 400 * d"
    unfolding z_def by (rule div_lower) simp
  have a: "4 * (z div 4) \<le> z" by (rule div_lower) simp
  have b: "z + 68 < 100 * ((z + 68) div 100) + 100" by (rule div_upper) simp
  have c: "400 * ((z + 368) div 400) \<le> z + 368" by (rule div_lower) simp
  have "DayFromYear (1970 + z - 1) = 365 * (z - 1) + z div 4 - (z + 68) div 100 + (z + 368) div 400"
    unfolding DayFromYear_def by (simp add: algebra_simps)
  also have "\<dots> \<le> d" by (rule est_lower_aux [OF z a b c])
  finally show ?thesis unfolding z_def .
qed

lemma est_upper: "d < DayFromYear (1970 + (400 * d) div 146097 + 2)"
proof -
  define z where "z = (400 * d) div 146097"
  have z: "400 * d < 146097 * z + 146097"
    unfolding z_def by (rule div_upper) simp
  have a: "z + 3 < 4 * ((z + 3) div 4) + 4" by (rule div_upper) simp
  have b: "100 * ((z + 71) div 100) \<le> z + 71" by (rule div_lower) simp
  have c: "z + 371 < 400 * ((z + 371) div 400) + 400" by (rule div_upper) simp
  have "DayFromYear (1970 + z + 2) = 365 * (z + 2) + (z + 3) div 4 - (z + 71) div 100 + (z + 371) div 400"
    unfolding DayFromYear_def by (simp add: algebra_simps)
  moreover have "d < 365 * (z + 2) + (z + 3) div 4 - (z + 71) div 100 + (z + 371) div 400"
    by (rule est_upper_aux [OF z a b c])
  ultimately show ?thesis unfolding z_def by simp
qed

lemma div_add_one:
  fixes a k :: int
  assumes "1 < k"
  shows "(a + 1) div k = a div k + (if (a + 1) mod k = 0 then 1 else 0)"
proof (cases "a mod k = k - 1")
  case True
  have e: "k * (a div k) + a mod k = a" by simp
  have "k * (a div k + 1) = k * (a div k) + k" by (simp add: algebra_simps)
  with e True have "a + 1 = k * (a div k + 1) + 0" by linarith
  then have "(a + 1) div k = a div k + 1" "(a + 1) mod k = 0"
    using assms int_div_pos_eq [of "a + 1" k "a div k + 1" 0]
      int_mod_pos_eq [of "a + 1" k "a div k + 1" 0] by simp_all
  then show ?thesis by simp
next
  case False
  have r: "0 \<le> a mod k" "a mod k < k" using assms by simp_all
  with False have lt: "a mod k + 1 < k" by linarith
  have "a + 1 = k * (a div k) + (a mod k + 1)"
    using mult_div_mod_eq [of k a] by simp
  then have "(a + 1) div k = a div k" "(a + 1) mod k = a mod k + 1"
    using r lt int_div_pos_eq [of "a + 1" k "a div k" "a mod k + 1"]
      int_mod_pos_eq [of "a + 1" k "a div k" "a mod k + 1"] by simp_all
  then show ?thesis using r by simp
qed

lemma step4: "(y - 1968) div 4 = (y - 1969) div 4 + (if y mod 4 = 0 then 1 else 0)" for y :: int
proof -
  have "(y - 1968) mod 4 = y mod 4"
    using mod_mult_self2 [of y 4 "- 492"] by simp
  then show ?thesis using div_add_one [of 4 "y - 1969"] by simp
qed

lemma step100: "(y - 1900) div 100 = (y - 1901) div 100 + (if y mod 100 = 0 then 1 else 0)" for y :: int
proof -
  have "(y - 1900) mod 100 = y mod 100"
    using mod_mult_self2 [of y 100 "- 19"] by simp
  then show ?thesis using div_add_one [of 100 "y - 1901"] by simp
qed

lemma step400: "(y - 1600) div 400 = (y - 1601) div 400 + (if y mod 400 = 0 then 1 else 0)" for y :: int
proof -
  have "(y - 1600) mod 400 = y mod 400"
    using mod_mult_self2 [of y 400 "- 4"] by simp
  then show ?thesis using div_add_one [of 400 "y - 1601"] by simp
qed

lemma mod_400_100: "y mod 400 = 0 \<Longrightarrow> y mod 100 = 0" for y :: int
  using mod_mod_cancel [of 100 400 y] by simp

lemma mod_100_4: "y mod 100 = 0 \<Longrightarrow> y mod 4 = 0" for y :: int
  using mod_mod_cancel [of 4 100 y] by simp

lemma DayFromYear_Suc: "DayFromYear (y + 1) = DayFromYear y + DaysInYear y"
proof -
  have "DayFromYear (y + 1) = 365 * (y - 1969) + (y - 1968) div 4 - (y - 1900) div 100 + (y - 1600) div 400"
    by (simp add: DayFromYear_def)
  then show ?thesis
    using mod_400_100 [of y] mod_100_4 [of y]
    by (auto simp add: step4 step100 step400 DayFromYear_def DaysInYear_def)
qed

lemma DaysInYear_cases: "DaysInYear y = 365 \<or> DaysInYear y = 366"
  by (simp add: DaysInYear_def)

lemma DayFromYear_less_Suc: "DayFromYear y < DayFromYear (y + 1)"
  using DaysInYear_cases [of y] by (auto simp: DayFromYear_Suc)

lemma DayFromYear_mono_nat: "DayFromYear y \<le> DayFromYear (y + int n)"
proof (induction n)
  case 0
  show ?case by simp
next
  case (Suc n)
  have e: "y + int (Suc n) = (y + int n) + 1" by simp
  have "DayFromYear (y + int n) < DayFromYear ((y + int n) + 1)"
    by (rule DayFromYear_less_Suc)
  then show ?case unfolding e using Suc by linarith
qed

lemma DayFromYear_mono: "y \<le> y' \<Longrightarrow> DayFromYear y \<le> DayFromYear y'"
  using DayFromYear_mono_nat [of y "nat (y' - y)"] by simp

lemma DayFromYear_less_imp: "DayFromYear y < DayFromYear y' \<Longrightarrow> y < y'"
  using DayFromYear_mono [of y' y] by linarith

lemma YearFromDay_bounds:
  "DayFromYear (YearFromDay d) \<le> d \<and> d < DayFromYear (YearFromDay d + 1)"
  using est_lower [of d] est_upper [of d]
  by (auto simp: YearFromDay_def Let_def)

lemma YearFromDay_unique:
  assumes "DayFromYear y \<le> d" and "d < DayFromYear (y + 1)"
  shows "YearFromDay d = y"
proof -
  have b: "DayFromYear (YearFromDay d) \<le> d" "d < DayFromYear (YearFromDay d + 1)"
    using YearFromDay_bounds [of d] by simp_all
  have "DayFromYear y < DayFromYear (YearFromDay d + 1)" using assms(1) b(2) by linarith
  then have "y < YearFromDay d + 1" by (rule DayFromYear_less_imp)
  moreover have "DayFromYear (YearFromDay d) < DayFromYear (y + 1)" using assms(2) b(1) by linarith
  then have "YearFromDay d < y + 1" by (rule DayFromYear_less_imp)
  ultimately show ?thesis by linarith
qed

section \<open>Months and the days of February\<close>

lemma DaysInYear_leapDay: "DaysInYear y = 365 + leapDay y"
  by (simp add: leapDay_def DaysInYear_def)

lemma MakeDay_month:
  "0 \<le> m \<Longrightarrow> m \<le> 11 \<Longrightarrow> MakeDay y m dt = DayFromYear y + DayOfMonthStart (leapDay y) m + dt - 1"
  by (simp add: MakeDay_def leapDay_def Let_def)

lemma MakeDay_month_12:
  "MakeDay y 12 dt = DayFromYear (y + 1) + dt - 1"
  by (simp add: MakeDay_def DayOfMonthStart_def Let_def)

lemma DayFromYear_range:
  assumes "- 271820 \<le> y" and "y \<le> 275760"
  shows "- 99999744 \<le> DayFromYear y" and "DayFromYear y \<le> 99999744"
proof -
  have lo: "DayFromYear (- 271820) = - 99999744" by (simp add: DayFromYear_def)
  have hi: "DayFromYear 275760 = 99999744" by (simp add: DayFromYear_def)
  have "DayFromYear (- 271820) \<le> DayFromYear y" using assms(1) by (rule DayFromYear_mono)
  then show "- 99999744 \<le> DayFromYear y" using lo by linarith
  have "DayFromYear y \<le> DayFromYear 275760" using assms(2) by (rule DayFromYear_mono)
  then show "DayFromYear y \<le> 99999744" using hi by linarith
qed

lemma newDateYMD_in_range:
  assumes "\<bar>tza\<bar> \<le> msPerDay" and "- 99999990 \<le> MakeDay (adjustYear y) m dt"
    and "MakeDay (adjustYear y) m dt \<le> 99999990"
  shows "newDateYMD (fixedZone tza) (Some y) (Some m) (Some dt)
           = Date (Some (MakeDay (adjustYear y) m dt * msPerDay - tza))"
proof -
  have "\<bar>MakeDay (adjustYear y) m dt * msPerDay - tza\<bar> \<le> maxTime"
    using assms by (simp add: msPerDay_def maxTime_def)
  then show ?thesis
    by (simp add: newDateYMD_def adjustYear_def MakeDate_def MakeTime_def UTC_fixed TimeClip_def Let_def)
qed

lemma js_rem_eq_0:
  assumes "0 < k"
  shows "js_rem y k = 0 \<longleftrightarrow> y mod k = 0"
proof -
  have "js_rem y k = 0 \<longleftrightarrow> y = 0 \<or> \<bar>y\<bar> mod k = 0"
    using assms by (simp add: js_rem_def sgn_if)
  also have "\<dots> \<longleftrightarrow> k dvd \<bar>y\<bar>"
    by (auto simp: mod_eq_0_iff_dvd)
  also have "\<dots> \<longleftrightarrow> y mod k = 0"
    by (simp add: mod_eq_0_iff_dvd)
  finally show ?thesis .
qed

lemma isLeapYear_iff:
  "getFullYear (fixedZone tza) date = Some y \<Longrightarrow>
     isLeapYear (fixedZone tza) date \<longleftrightarrow> (y mod 400 = 0 \<or> (y mod 4 = 0 \<and> y mod 100 \<noteq> 0))"
  by (simp add: isLeapYear_def num_rem_def js_rem_eq_0)

lemma isLeapYear_DaysInYear:
  "getFullYear (fixedZone tza) date = Some y \<Longrightarrow> isLeapYear (fixedZone tza) date \<longleftrightarrow> DaysInYear y = 366"
  using mod_400_100 [of y] mod_100_4 [of y]
  by (auto simp add: isLeapYear_iff DaysInYear_def)

lemma days_quotient: "of_int (n * msPerDay) / 1000 / 3600 / 24 = (of_int n :: rat)"
  by (simp add: msPerDay_def)

lemma leapDay_adjustYear:
  assumes "y \<noteq> 0"
  shows "leapDay (adjustYear y) = leapDay y"
proof (cases "0 \<le> y \<and> y \<le> 99")
  case False
  then have "adjustYear y = y" by (auto simp: adjustYear_def)
  then show ?thesis by simp
next
  case True
  then have e: "adjustYear y = 1900 + y" by (simp add: adjustYear_def)
  from True assms have y: "0 < y" "y < 100" by simp_all
  have a: "(1900 + y) mod 4 = y mod 4"
    using mod_mult_self2 [of y 4 475] by (simp add: add.commute)
  have b: "(1900 + y) mod 100 = y mod 100"
    using mod_mult_self2 [of y 100 19] by (simp add: add.commute)
  have c: "y mod 100 \<noteq> 0" using y by simp
  show ?thesis unfolding e leapDay_def DaysInYear_def a b using c by simp
qed

lemma getCountDaysInMonth_february:
  assumes "\<bar>tza\<bar> \<le> msPerDay" and "- 271820 \<le> y" and "y \<le> 275760"
  shows "getCountDaysInMonth (fixedZone tza) 2 y = Some (of_int (28 + leapDay (adjustYear y)))"
proof -
  let ?yr = "adjustYear y"
  have yr: "- 271820 \<le> ?yr" "?yr \<le> 275760" using assms(2,3) by (auto simp: adjustYear_def)
  have r: "- 99999744 \<le> DayFromYear ?yr" "DayFromYear ?yr \<le> 99999744"
    using DayFromYear_range [OF yr] by simp_all
  have l: "0 \<le> leapDay ?yr \<and> leapDay ?yr \<le> 1" by (simp add: leapDay_def)
  have m1: "MakeDay ?yr 1 1 = DayFromYear ?yr + 31"
    by (simp add: MakeDay_month DayOfMonthStart_def)
  have m2: "MakeDay ?yr 2 1 = DayFromYear ?yr + 59 + leapDay ?yr"
    by (simp add: MakeDay_month DayOfMonthStart_def)
  have d1: "newDateYMD (fixedZone tza) (Some y) (Some 1) (Some 1) = Date (Some (MakeDay ?yr 1 1 * msPerDay - tza))"
    using r l by (intro newDateYMD_in_range assms(1)) (simp_all add: m1)
  have d2: "newDateYMD (fixedZone tza) (Some y) (Some 2) (Some 1) = Date (Some (MakeDay ?yr 2 1 * msPerDay - tza))"
    using r l by (intro newDateYMD_in_range assms(1)) (simp_all add: m2)
  have "(MakeDay ?yr 2 1 * msPerDay - tza) - (MakeDay ?yr 1 1 * msPerDay - tza)
          = (28 + leapDay ?yr) * msPerDay"
    by (simp add: m1 m2 algebra_simps)
  then have "getCountDaysInMonth (fixedZone tza) 2 y
     = frac_div (frac_div (frac_div (Some (of_int ((28 + leapDay ?yr) * msPerDay))) (Some 1000)) (Some 3600)) (Some 24)"
    by (simp add: getCountDaysInMonth_def d1 d2 num_sub_def frac_of_num_def Let_def)
  also have "\<dots> = Some (of_int ((28 + leapDay ?yr) * msPerDay) / 1000 / 3600 / 24)"
    by (simp add: frac_div_def)
  also have "\<dots> = Some (of_int (28 + leapDay ?yr))"
    by (simp only: days_quotient)
  finally show ?thesis .
qed

text \<open>
  Claim C7, amended. In a zone with a constant offset (of at most a day), for every integer
  year \<open>y\<close> other than 0 whose February lies in the range of time values (from
  \<open>-271820\<close> to \<open>275760\<close>), \<open>getCountDaysInMonth 2 y\<close>, the difference of the first of
  March and the first of February in days, is 29 exactly when \<open>isLeapYear\<close> holds for a
  date in year \<open>y\<close>, and 28 otherwise; and \<open>isLeapYear\<close> holds exactly when \<open>y\<close> is
  divisible by 400, or by 4 and not by 100.
\<close>

theorem getCountDaysInMonth_february_leap:
  assumes "\<bar>tza\<bar> \<le> msPerDay" and "- 271820 \<le> y" and "y \<le> 275760" and "y \<noteq> 0"
    and "getFullYear (fixedZone tza) date = Some y"
  shows "getCountDaysInMonth (fixedZone tza) 2 y = Some (if isLeapYear (fixedZone tza) date then 29 else 28)
         \<and> (isLeapYear (fixedZone tza) date \<longleftrightarrow> (y mod 400 = 0 \<or> (y mod 4 = 0 \<and> y mod 100 \<noteq> 0)))"
proof -
  have "leapDay (adjustYear y) = leapDay y"
    using assms(4) by (rule leapDay_adjustYear)
  also have "\<dots> = (if isLeapYear (fixedZone tza) date then 1 else 0)"
    using isLeapYear_DaysInYear [OF assms(5)] by (simp add: leapDay_def)
  finally have "leapDay (adjustYear y) = (if isLeapYear (fixedZone tza) date then 1 else 0)" .
  then have "getCountDaysInMonth (fixedZone tza) 2 y = Some (if isLeapYear (fixedZone tza) date then 29 else 28)"
    using getCountDaysInMonth_february [OF assms(1-3)] by simp
  then show ?thesis using isLeapYear_iff [OF assms(5)] by simp
qed

theorem getCountDaysInMonth_february_leap_witness:
  "getFullYear (fixedZone 0) (Date (Some 1708041600000)) = Some 2024
   \<and> isLeapYear (fixedZone 0) (Date (Some 1708041600000))
   \<and> getCountDaysInMonth (fixedZone 0) 2 2024 = Some 29"
proof -
  have y: "getFullYear (fixedZone 0) (Date (Some 1708041600000)) = Some 2024"
    by (simp add: getFullYear_def YearFromTime_def YearFromDay_def LocalTime_fixed Day_def
        msPerDay_def DayFromYear_def Let_def)
  have "\<bar>0::int\<bar> \<le> msPerDay" by (simp add: msPerDay_def)
  from getCountDaysInMonth_february_leap [OF this _ _ _ y]
  show ?thesis using y by simp
qed

text \<open>For the year argument 0 the constructor builds the months of 1900, which is not a
  leap year, while \<open>isLeapYear\<close> holds for a date in year 0. And where the offset changes
  within February the difference is not a whole number of days: in Sao Paulo daylight
  saving ended on 18 February 2018, and the result for 2018 is 28 days and one hour.\<close>

theorem getCountDaysInMonth_year_zero_counterexample:
  "getFullYear (fixedZone 0) (Date (Some (- 62154086400000))) = Some 0
   \<and> isLeapYear (fixedZone 0) (Date (Some (- 62154086400000)))
   \<and> getCountDaysInMonth (fixedZone 0) 2 0 = Some 28
   \<and> getCountDaysInMonth saoPaulo2018 2 2018 = Some (673 / 24)"
proof -
  have sp: "getCountDaysInMonth saoPaulo2018 2 2018 = Some (673 / 24)" by code_simp
  have y: "getFullYear (fixedZone 0) (Date (Some (- 62154086400000))) = Some 0"
    by (simp add: getFullYear_def YearFromTime_def YearFromDay_def LocalTime_fixed Day_def
        msPerDay_def DayFromYear_def Let_def)
  have l: "isLeapYear (fixedZone 0) (Date (Some (- 62154086400000)))"
    by (simp add: isLeapYear_iff [OF y])
  have "\<bar>0::int\<bar> \<le> msPerDay" by (simp add: msPerDay_def)
  from getCountDaysInMonth_february [OF this, of 0]
  have "getCountDaysInMonth (fixedZone 0) 2 0 = Some 28"
    by (simp add: adjustYear_def leapDay_def DaysInYear_def)
  with y l sp show ?thesis by simp
qed

section \<open>Months: from a day number to the calendar and back\<close>

lemma month_cases:
  "0 \<le> m \<Longrightarrow> m \<le> 11 \<Longrightarrow>
     m = 0 \<or> m = 1 \<or> m = 2 \<or> m = 3 \<or> m = 4 \<or> m = 5 \<or> m = 6 \<or> m = 7 \<or> m = 8 \<or> m = 9
       \<or> m = 10 \<or> m = (11::int)"
  by arith

lemma leapDay_bounds: "0 \<le> leapDay y" "leapDay y \<le> 1"
  by (simp_all add: leapDay_def)


lemma DayOfMonthStart_bounds:
  assumes "0 \<le> m" "m \<le> 11" "0 \<le> l" "l \<le> 1"
  shows "0 \<le> DayOfMonthStart l m" and "DayOfMonthStart l m + DaysInMonth l m \<le> 365 + l"
  using month_cases [OF assms(1,2)] assms(3,4)
  by (elim disjE, simp_all add: DayOfMonthStart_def DaysInMonth_def)+


lemma month_table:
  assumes "0 \<le> m" "m \<le> 11" "0 \<le> l" "l \<le> 1"
    and "DayOfMonthStart l m \<le> d" and "d < DayOfMonthStart l m + DaysInMonth l m"
  shows "(if d < 31 then 0
         else if d < 59 + l then 1
         else if d < 90 + l then 2
         else if d < 120 + l then 3
         else if d < 151 + l then 4
         else if d < 181 + l then 5
         else if d < 212 + l then 6
         else if d < 243 + l then 7
         else if d < 273 + l then 8
         else if d < 304 + l then 9
         else if d < 334 + l then 10
         else 11) = m"
  using month_cases [OF assms(1,2)] assms(3-6)
  by (elim disjE) (simp_all add: DayOfMonthStart_def DaysInMonth_def)

lemma date_table:
  assumes "0 \<le> m" "m \<le> 11"
  shows "(if m = 0 then d + 1
         else if m = 1 then d - 30
         else if m = 2 then d - 58 - l
         else if m = 3 then d - 89 - l
         else if m = 4 then d - 119 - l
         else if m = 5 then d - 150 - l
         else if m = 6 then d - 180 - l
         else if m = 7 then d - 211 - l
         else if m = 8 then d - 242 - l
         else if m = 9 then d - 272 - l
         else if m = 10 then d - 303 - l
         else d - 333 - l) = d - DayOfMonthStart l m + 1"
  using month_cases [OF assms(1,2)]
  by (elim disjE) (simp_all add: DayOfMonthStart_def)

lemma civil_of_day:
  assumes "0 \<le> m" "m \<le> 11" "1 \<le> dt" "dt \<le> DaysInMonth (leapDay y) m"
    and "Day t = MakeDay y m dt"
  shows "YearFromTime t = y" and "MonthFromTime t = m" and "DateFromTime t = dt"
proof -
  let ?l = "leapDay y"
  have D: "Day t = DayFromYear y + (DayOfMonthStart ?l m + dt - 1)"
    using assms(1,2,5) by (simp add: MakeDay_month)
  have b: "0 \<le> DayOfMonthStart ?l m" "DayOfMonthStart ?l m + DaysInMonth ?l m \<le> 365 + ?l"
    using DayOfMonthStart_bounds [OF assms(1,2) leapDay_bounds [of y]] by simp_all
  have "DayFromYear y \<le> Day t" using D b(1) assms(3) by linarith
  moreover have "Day t < DayFromYear (y + 1)"
    using D b(2) assms(4) by (simp add: DayFromYear_Suc DaysInYear_leapDay)
  ultimately show y: "YearFromTime t = y"
    unfolding YearFromTime_def by (rule YearFromDay_unique)
  have w: "DayWithinYear t = DayOfMonthStart ?l m + dt - 1"
    by (simp add: DayWithinYear_def y D)
  have l: "InLeapYear t = ?l" by (simp add: InLeapYear_def y leapDay_def)
  have lo: "DayOfMonthStart ?l m \<le> DayOfMonthStart ?l m + dt - 1"
    using assms(3) by simp
  have hi: "DayOfMonthStart ?l m + dt - 1 < DayOfMonthStart ?l m + DaysInMonth ?l m"
    using assms(4) by simp
  show mo: "MonthFromTime t = m"
    unfolding MonthFromTime_def w l Let_def
    by (rule month_table [OF assms(1,2) leapDay_bounds lo hi])
  show "DateFromTime t = dt"
    unfolding DateFromTime_def mo w l Let_def
    by (simp add: date_table [OF assms(1,2)])
qed

section \<open>The week number\<close>

lemma floor_rat_numeral: "\<lfloor>(numeral a :: rat) / numeral b\<rfloor> = numeral a div numeral b"
  using floor_divide_of_int_eq [of "numeral a" "numeral b", where ?'a = rat] by simp

lemma ceiling_rat_numeral: "\<lceil>(numeral a :: rat) / numeral b\<rceil> = - (- numeral a div numeral b)"
  using floor_divide_of_int_eq [of "- numeral a" "numeral b", where ?'a = rat]
  by (simp add: ceiling_def)

text \<open>The examples of the documentation hold: 2024 begins on a Monday.\<close>

lemma getWeekNumberByDate_examples:
  "getWeekNumberByDate (fixedZone 0) (newDateYMD (fixedZone 0) (Some 2024) (Some 0) (Some 3)) = Some 1"
  "getWeekNumberByDate (fixedZone 0) (newDateYMD (fixedZone 0) (Some 2024) (Some 0) (Some 31)) = Some 5"
  "getWeekNumberByDate (fixedZone 0) (newDateYMD (fixedZone 0) (Some 2024) (Some 1) (Some 23)) = Some 8"
  by code_simp+

text \<open>
  Claim C1 fails on the code. 2025 begins on a Wednesday, so its week 1 starts on Monday
  2024-12-30 and Monday 2025-01-06 is in week 2. The source keeps the first of January as
  the start of week 1 whenever that day is a Monday, Tuesday, Wednesday or Thursday, and
  counts seven-day blocks from it: it gives 1 for 2025-01-06.
\<close>

theorem getWeekNumberByDate_2025_01_06:
  "getWeekNumberByDate (fixedZone 0) (newDateYMD (fixedZone 0) (Some 2025) (Some 0) (Some 6)) = Some 1
   \<and> isoWeekNumber_spec (fixedZone 0) (newDateYMD (fixedZone 0) (Some 2025) (Some 0) (Some 6)) = Some 2"
  by code_simp

text \<open>The source also counts from midnight in milliseconds: on the Sunday that ends week 1
  of 2024, at noon, it gives 2.\<close>

lemma getWeekNumberByDate_sunday_noon:
  "getDay (fixedZone 0) (Date (Some 1704628800000)) = Some 0
   \<and> getWeekNumberByDate (fixedZone 0) (Date (Some 1704585600000)) = Some 1
   \<and> getWeekNumberByDate (fixedZone 0) (Date (Some 1704628800000)) = Some 2
   \<and> isoWeekNumber_spec (fixedZone 0) (Date (Some 1704628800000)) = Some 1"
  by code_simp

section \<open>The weekend days of a month\<close>



lemma DaysInMonth_bounds:
  assumes "0 \<le> l" "l \<le> 1"
  shows "28 \<le> DaysInMonth l m" and "DaysInMonth l m \<le> 31"
  using assms by (simp_all add: DaysInMonth_def)



lemma newDateYMD_month_day:
  assumes "\<bar>tza\<bar> \<le> msPerDay" and "- 271820 \<le> year" and "year \<le> 275759"
    and "0 \<le> m" and "m \<le> 12" and "1 \<le> d" and "d \<le> 62"
  shows "newDateYMD (fixedZone tza) (Some year) (Some m) (Some d)
           = Date (Some (MakeDay (adjustYear year) m d * msPerDay - tza))"
proof -
  let ?yr = "adjustYear year"
  have yr: "- 271820 \<le> ?yr" "?yr + 1 \<le> 275760"
    using assms(2,3) by (auto simp: adjustYear_def)
  then have yr': "?yr \<le> 275760" by simp
  have lo: "- 99999744 \<le> DayFromYear ?yr" using DayFromYear_range(1) [OF yr(1) yr'] .
  have "- 271820 \<le> ?yr + 1" using yr(1) by simp
  from DayFromYear_range(2) [OF this yr(2)]
  have hi: "DayFromYear ?yr + 365 + leapDay ?yr \<le> 99999744"
    by (simp add: DayFromYear_Suc DaysInYear_leapDay)
  have md: "DayFromYear ?yr \<le> MakeDay ?yr m 1 \<and> MakeDay ?yr m 1 \<le> DayFromYear ?yr + 365 + leapDay ?yr"
  proof (cases "m = 12")
    case True
    then show ?thesis
      using leapDay_bounds [of ?yr]
      by (simp add: MakeDay_month_12 DayFromYear_Suc DaysInYear_leapDay)
  next
    case False
    with assms(5) have m11: "m \<le> 11" by simp
    have "0 \<le> DayOfMonthStart (leapDay ?yr) m"
      "DayOfMonthStart (leapDay ?yr) m + DaysInMonth (leapDay ?yr) m \<le> 365 + leapDay ?yr"
      using DayOfMonthStart_bounds [OF assms(4) m11 leapDay_bounds [of ?yr]] by simp_all
    moreover have "28 \<le> DaysInMonth (leapDay ?yr) m"
      using DaysInMonth_bounds(1) [OF leapDay_bounds [of ?yr]] .
    ultimately show ?thesis using assms(4) m11 by (simp add: MakeDay_month)
  qed
  have "MakeDay ?yr m d = MakeDay ?yr m 1 + (d - 1)" by (simp add: MakeDay_def Let_def)
  with md lo hi assms(6,7)
  have "- 99999990 \<le> MakeDay ?yr m d" "MakeDay ?yr m d \<le> 99999990" by linarith+
  then show ?thesis by (intro newDateYMD_in_range assms(1))
qed

lemma Day_local_midnight: "Day (LocalTime (fixedZone tza) (n * msPerDay - tza)) = n"
  by (simp add: LocalTime_fixed Day_def msPerDay_def)



lemma MakeDay_add_day: "MakeDay y m (d + k) = MakeDay y m d + k"
  by (simp add: MakeDay_def Let_def)














section \<open>The next Friday the 13th\<close>

lemma friday13_cover_all:
  "list_all (\<lambda>(l0, l1). list_all (\<lambda>m. list_all (\<lambda>r.
       list_ex (\<lambda>k. (r + offsetOf13th l0 l1 m k + 4) mod 7 = 5) [1..14])
     [0..6]) [0..11]) [(0, 0), (0, 1), (1, 0)]"
  by code_simp


lemma friday13_cover:
  assumes "(l0 = 0 \<and> l1 = 0) \<or> (l0 = 0 \<and> l1 = 1) \<or> (l0 = 1 \<and> l1 = 0)"
    and "0 \<le> m" "m \<le> 11" "0 \<le> r" "r \<le> 6"
  shows "\<exists>k. 1 \<le> k \<and> k \<le> 14 \<and> (r + offsetOf13th l0 l1 m k + 4) mod 7 = 5"
proof -
  have l: "(l0, l1) \<in> set [(0, 0), (0, 1), (1, 0)]" using assms(1) by auto
  have m: "m \<in> set [0..11]" unfolding set_upto using assms(2,3) by simp
  have r: "r \<in> set [0..6]" unfolding set_upto using assms(4,5) by simp
  from friday13_cover_all l have "list_all (\<lambda>m. list_all (\<lambda>r.
       list_ex (\<lambda>k. (r + offsetOf13th l0 l1 m k + 4) mod 7 = 5) [1..14]) [0..6]) [0..11]"
    unfolding list_all_iff by blast
  with m r have "list_ex (\<lambda>k. (r + offsetOf13th l0 l1 m k + 4) mod 7 = 5) [1..14]"
    unfolding list_all_iff by blast
  then obtain k where "k \<in> set [1..14]" "(r + offsetOf13th l0 l1 m k + 4) mod 7 = 5"
    unfolding list_ex_iff by blast
  then show ?thesis unfolding set_upto by auto
qed

lemma leapDay_next: "leapDay y = 1 \<Longrightarrow> leapDay (y + 1) = 0"
proof -
  assume "leapDay y = 1"
  then have "y mod 4 = 0" by (simp add: leapDay_def DaysInYear_def split: if_splits)
  then have "(y + 1) mod 4 \<noteq> 0" by presburger
  then show ?thesis by (simp add: leapDay_def DaysInYear_def)
qed

lemma leapDay_pair:
  "(leapDay y = 0 \<and> leapDay (y + 1) = 0) \<or> (leapDay y = 0 \<and> leapDay (y + 1) = 1)
     \<or> (leapDay y = 1 \<and> leapDay (y + 1) = 0)"
  using leapDay_next [of y] leapDay_bounds [of y] leapDay_bounds [of "y + 1"] by linarith

lemma DayFromYear_two: "DayFromYear (y + 2) = DayFromYear y + 730 + leapDay y + leapDay (y + 1)"
  using DayFromYear_Suc [of "y + 1"] DayFromYear_Suc [of y]
  by (simp add: DaysInYear_leapDay add.commute add.left_commute)

lemma MakeDay_13th:
  assumes "0 \<le> m" "m \<le> 11" "1 \<le> k" "k \<le> 14"
  shows "MakeDay y (m + k) 13 = DayFromYear y + offsetOf13th (leapDay y) (leapDay (y + 1)) m k"
proof -
  define q where "q = (m + k) div 12"
  define r where "r = (m + k) mod 12"
  have e: "12 * q + r = m + k" unfolding q_def r_def by simp
  have r: "0 \<le> r" "r < 12" unfolding r_def by simp_all
  have "0 \<le> q" "q \<le> 2" using e r assms by linarith+
  then consider (a) "q = 0" | (b) "q = 1" | (c) "q = 2" by linarith
  then have "DayFromYear (y + q) + DayOfMonthStart (leapDay (y + q)) r + 13 - 1 =
    DayFromYear y +
      ((if q = 0 then DayOfMonthStart (leapDay y) r
        else if q = 1 then 365 + leapDay y + DayOfMonthStart (leapDay (y + 1)) r
        else 730 + leapDay y + leapDay (y + 1) + DayOfMonthStart 0 r) + 12)"
  proof cases
    case a
    then show ?thesis by simp
  next
    case b
    then show ?thesis by (simp add: DayFromYear_Suc DaysInYear_leapDay)
  next
    case c
    then have "r \<le> 1" using assms e by linarith
    with r(1) have "r = 0 \<or> r = 1" by linarith
    then have "DayOfMonthStart (leapDay (y + 2)) r = DayOfMonthStart 0 r"
      by (auto simp: DayOfMonthStart_def)
    then show ?thesis using c by (simp add: DayFromYear_two)
  qed
  then show ?thesis
    unfolding MakeDay_def offsetOf13th_def Let_def q_def r_def leapDay_def .
qed

lemma MakeDay_normal:
  "MakeDay y mo dt = MakeDay (y + mo div 12) (mo mod 12) dt"
  by (simp add: MakeDay_def Let_def)

lemma Day_of_day: "Day (d * msPerDay) = d"
  by (simp add: Day_def msPerDay_def)

lemma DateOfDay_MakeDay:
  assumes "0 \<le> m" "m \<le> 11" "1 \<le> dt" "dt \<le> DaysInMonth (leapDay y) m"
  shows "DateOfDay (MakeDay y m dt) = dt"
  unfolding DateOfDay_def by (rule civil_of_day(3) [OF assms Day_of_day])

lemma DateOfDay_13th: "DateOfDay (MakeDay y mo 13) = 13"
proof -
  have "13 \<le> DaysInMonth (leapDay (y + mo div 12)) (mo mod 12)"
    using DaysInMonth_bounds(1) [OF leapDay_bounds [of "y + mo div 12"], of "mo mod 12"] by simp
  then have "DateOfDay (MakeDay (y + mo div 12) (mo mod 12) 13) = 13"
    by (intro DateOfDay_MakeDay) simp_all
  then show ?thesis by (simp add: MakeDay_normal [of y mo])
qed

lemma month_of_year_day:
  assumes "0 \<le> w" "w < 365 + l" "0 \<le> l" "l \<le> 1"
  shows "\<exists>m. 0 \<le> m \<and> m \<le> 11 \<and> DayOfMonthStart l m \<le> w
           \<and> w < DayOfMonthStart l m + DaysInMonth l m"
proof -
  consider "w < 31" | "31 \<le> w \<and> w < 59 + l" | "59 + l \<le> w \<and> w < 90 + l"
    | "90 + l \<le> w \<and> w < 120 + l" | "120 + l \<le> w \<and> w < 151 + l"
    | "151 + l \<le> w \<and> w < 181 + l" | "181 + l \<le> w \<and> w < 212 + l"
    | "212 + l \<le> w \<and> w < 243 + l" | "243 + l \<le> w \<and> w < 273 + l"
    | "273 + l \<le> w \<and> w < 304 + l" | "304 + l \<le> w \<and> w < 334 + l"
    | "334 + l \<le> w" by linarith
  then show ?thesis
  proof cases
    case 1 then show ?thesis using assms
      by (intro exI [of _ 0]) (simp add: DayOfMonthStart_def DaysInMonth_def)
  next
    case 2 then show ?thesis using assms
      by (intro exI [of _ 1]) (simp add: DayOfMonthStart_def DaysInMonth_def)
  next
    case 3 then show ?thesis using assms
      by (intro exI [of _ 2]) (simp add: DayOfMonthStart_def DaysInMonth_def)
  next
    case 4 then show ?thesis using assms
      by (intro exI [of _ 3]) (simp add: DayOfMonthStart_def DaysInMonth_def)
  next
    case 5 then show ?thesis using assms
      by (intro exI [of _ 4]) (simp add: DayOfMonthStart_def DaysInMonth_def)
  next
    case 6 then show ?thesis using assms
      by (intro exI [of _ 5]) (simp add: DayOfMonthStart_def DaysInMonth_def)
  next
    case 7 then show ?thesis using assms
      by (intro exI [of _ 6]) (simp add: DayOfMonthStart_def DaysInMonth_def)
  next
    case 8 then show ?thesis using assms
      by (intro exI [of _ 7]) (simp add: DayOfMonthStart_def DaysInMonth_def)
  next
    case 9 then show ?thesis using assms
      by (intro exI [of _ 8]) (simp add: DayOfMonthStart_def DaysInMonth_def)
  next
    case 10 then show ?thesis using assms
      by (intro exI [of _ 9]) (simp add: DayOfMonthStart_def DaysInMonth_def)
  next
    case 11 then show ?thesis using assms
      by (intro exI [of _ 10]) (simp add: DayOfMonthStart_def DaysInMonth_def)
  next
    case 12 then show ?thesis using assms
      by (intro exI [of _ 11]) (simp add: DayOfMonthStart_def DaysInMonth_def)
  qed
qed

lemma civil_exists:
  "\<exists>y m dt. 0 \<le> m \<and> m \<le> 11 \<and> 1 \<le> dt \<and> dt \<le> DaysInMonth (leapDay y) m \<and> D = MakeDay y m dt"
proof -
  define y where "y = YearFromDay D"
  define w where "w = D - DayFromYear y"
  have "DayFromYear y \<le> D" "D < DayFromYear (y + 1)"
    using YearFromDay_bounds [of D] by (simp_all add: y_def)
  then have w: "0 \<le> w" "w < 365 + leapDay y"
    by (simp_all add: w_def DayFromYear_Suc DaysInYear_leapDay)
  from month_of_year_day [OF w leapDay_bounds]
  obtain m where m: "0 \<le> m" "m \<le> 11" "DayOfMonthStart (leapDay y) m \<le> w"
    "w < DayOfMonthStart (leapDay y) m + DaysInMonth (leapDay y) m" by blast
  define dt where "dt = w - DayOfMonthStart (leapDay y) m + 1"
  have "1 \<le> dt" "dt \<le> DaysInMonth (leapDay y) m" using m(3,4) by (simp_all add: dt_def)
  moreover have "D = MakeDay y m dt"
    using m(1,2) by (simp add: MakeDay_month dt_def w_def)
  ultimately show ?thesis using m(1,2) by blast
qed


lemma offsetOf13th_bounds_all:
  "list_all (\<lambda>(l0, l1). list_all (\<lambda>m. list_all (\<lambda>k.
       DayOfMonthStart l0 m + DaysInMonth l0 m - 1 < offsetOf13th l0 l1 m k
       \<and> offsetOf13th l0 l1 m k \<le> DayOfMonthStart l0 m + 440)
     [1..14]) [0..11]) [(0, 0), (0, 1), (1, 0)]"
  by code_simp

lemma offsetOf13th_bounds:
  assumes "(l0 = 0 \<and> l1 = 0) \<or> (l0 = 0 \<and> l1 = 1) \<or> (l0 = 1 \<and> l1 = 0)"
    and "0 \<le> m" "m \<le> 11" "1 \<le> k" "k \<le> 14"
  shows "DayOfMonthStart l0 m + DaysInMonth l0 m - 1 < offsetOf13th l0 l1 m k"
    and "offsetOf13th l0 l1 m k \<le> DayOfMonthStart l0 m + 440"
proof -
  have l: "(l0, l1) \<in> set [(0, 0), (0, 1), (1, 0)]" using assms(1) by auto
  have m: "m \<in> set [0..11]" unfolding set_upto using assms(2,3) by simp
  have k: "k \<in> set [1..14]" unfolding set_upto using assms(4,5) by simp
  from offsetOf13th_bounds_all l have "list_all (\<lambda>m. list_all (\<lambda>k.
       DayOfMonthStart l0 m + DaysInMonth l0 m - 1 < offsetOf13th l0 l1 m k
       \<and> offsetOf13th l0 l1 m k \<le> DayOfMonthStart l0 m + 440) [1..14]) [0..11]"
    unfolding list_all_iff by blast
  with m k have "DayOfMonthStart l0 m + DaysInMonth l0 m - 1 < offsetOf13th l0 l1 m k
       \<and> offsetOf13th l0 l1 m k \<le> DayOfMonthStart l0 m + 440"
    unfolding list_all_iff by blast
  then show "DayOfMonthStart l0 m + DaysInMonth l0 m - 1 < offsetOf13th l0 l1 m k"
    and "offsetOf13th l0 l1 m k \<le> DayOfMonthStart l0 m + 440" by simp_all
qed

lemma friday13_exists:
  "\<exists>X. D < X \<and> X \<le> D + 440 \<and> (X + 4) mod 7 = 5 \<and> DateOfDay X = 13"
proof -
  from civil_exists [of D] obtain y m dt where
    c: "0 \<le> m" "m \<le> 11" "1 \<le> dt" "dt \<le> DaysInMonth (leapDay y) m" "D = MakeDay y m dt"
    by blast
  define r where "r = DayFromYear y mod 7"
  have r: "0 \<le> r" "r \<le> 6" by (simp_all add: r_def)
  from friday13_cover [OF leapDay_pair c(1,2) r]
  obtain k where k: "1 \<le> k" "k \<le> 14"
    "(r + offsetOf13th (leapDay y) (leapDay (y + 1)) m k + 4) mod 7 = 5" by blast
  define off where "off = offsetOf13th (leapDay y) (leapDay (y + 1)) m k"
  define X where "X = MakeDay y (m + k) 13"
  have X: "X = DayFromYear y + off"
    unfolding X_def off_def by (rule MakeDay_13th [OF c(1,2) k(1,2)])
  have D: "D = DayFromYear y + DayOfMonthStart (leapDay y) m + dt - 1"
    using c(1,2,5) by (simp add: MakeDay_month)
  have b: "DayOfMonthStart (leapDay y) m + DaysInMonth (leapDay y) m - 1 < off"
    "off \<le> DayOfMonthStart (leapDay y) m + 440"
    unfolding off_def by (rule offsetOf13th_bounds [OF leapDay_pair c(1,2) k(1,2)])+
  have "D < X" using X D b(1) c(4) by linarith
  moreover have "X \<le> D + 440" using X D b(2) c(3) by linarith
  moreover have "(X + 4) mod 7 = 5"
  proof -
    have "(DayFromYear y mod 7 + (off + 4)) mod 7 = (DayFromYear y + (off + 4)) mod 7"
      by (rule mod_add_left_eq)
    then have "(X + 4) mod 7 = (r + off + 4) mod 7"
      by (simp add: X r_def add.assoc)
    then show ?thesis using k(3) by (simp add: off_def)
  qed
  moreover have "DateOfDay X = 13" unfolding X_def by (rule DateOfDay_13th)
  ultimately show ?thesis by blast
qed

lemma DateFromTime_DateOfDay: "DateFromTime t = DateOfDay (Day t)"
  by (simp add: DateOfDay_def DateFromTime_def MonthFromTime_def DayWithinYear_def
      InLeapYear_def YearFromTime_def Day_of_day)

lemma getNextFridayThe13th_step:
  "getNextFridayThe13th (Suc fuel) zone date =
     (if getDate zone (getNextFriday zone date) = Some 13 then Some (getNextFriday zone date)
      else getNextFridayThe13th fuel zone (getNextFriday zone date))"
  by (simp add: getNextFriday_def Let_def)

declare getNextFridayThe13th.simps(2) [simp del]

lemma getNextFridayThe13th_invalid: "getNextFridayThe13th fuel zone (Date None) = None"
proof (induction fuel)
  case 0
  show ?case by simp
next
  case (Suc fuel)
  have "getNextFriday zone (Date None) = Date None"
    by (simp add: getNextFriday_def getDay_def num_sub_def num_gt_def num_add_def newDate_def)
  then show ?case using Suc by (simp add: getNextFridayThe13th_step getDate_def)
qed

lemma getDate_DateOfDay:
  "getDate (fixedZone tza) (Date (Some t)) = Some (DateOfDay (Day (LocalTime (fixedZone tza) t)))"
  by (simp add: getDate_def DateFromTime_DateOfDay)

lemma friday_weeks:
  assumes "(X + 4) mod 7 = 5" "(F + 4) mod 7 = 5" "F = D + k" "1 \<le> k" "k \<le> 7" "F \<le> X"
  shows "(X - F + 6) div 7 + 1 = (X - D + 6) div (7::int)"
proof -
  have "(X + 4 - (F + 4)) mod 7 = ((X + 4) mod 7 - (F + 4) mod 7) mod 7"
    by (simp add: mod_diff_eq)
  then have "(X - F) mod 7 = 0" using assms(1,2) by simp
  then obtain j where j: "X - F = 7 * j" by (auto simp: mod_eq_0_iff_dvd)
  have "(7 * j + 6) div 7 = j + 6 div (7::int)" by (rule div_mult_self4) simp
  then have a: "(X - F + 6) div 7 = j" by (simp add: j)
  have "k + 6 = 7 * 1 + (k - 1)" by simp
  then have k1: "(k + 6) div 7 = 1"
    using assms(4,5) int_div_pos_eq [of "k + 6" 7 1 "k - 1"] by simp
  have "X - D + 6 = 7 * j + (k + 6)" using j assms(3) by simp
  moreover have "(7 * j + (k + 6)) div 7 = j + (k + 6) div 7" by (rule div_mult_self4) simp
  ultimately have "(X - D + 6) div 7 = j + 1" using k1 by simp
  with a show ?thesis by simp
qed

lemma getNextFridayThe13th_search:
  assumes "Day (LocalTime (fixedZone tza) t) = D" and "D < X" and "(X + 4) mod 7 = 5" and "DateOfDay X = 13"
    and "\<bar>t\<bar> \<le> maxTime" and "t + (X - D) * msPerDay \<le> maxTime"
    and "(X - D + 6) div 7 \<le> int fuel"
  shows "\<exists>X0. D < X0 \<and> X0 \<le> X \<and> (X0 + 4) mod 7 = 5 \<and> DateOfDay X0 = 13
           \<and> (\<forall>Z. D < Z \<and> Z < X0 \<and> (Z + 4) mod 7 = 5 \<longrightarrow> DateOfDay Z \<noteq> 13)
           \<and> getNextFridayThe13th fuel (fixedZone tza) (Date (Some t))
                 = Some (Date (Some (t + (X0 - D) * msPerDay)))"
  using assms
proof (induction fuel arbitrary: t D)
  case 0
  then have "(X - D + 6) div 7 \<le> 0" by simp
  then have "X - D + 6 < 7" using div_upper [of 7 "X - D + 6"] by linarith
  with "0.prems"(2) show ?case by linarith
next
  case (Suc fuel)
  define k where "k = fridayDelta (WeekDay (LocalTime (fixedZone tza) t))"
  define F where "F = D + k"
  have k: "1 \<le> k" "k \<le> 7"
    using WeekDay_range [of "LocalTime (fixedZone tza) t"] by (simp_all add: k_def fridayDelta_range)
  have wF: "WeekDay (LocalTime (fixedZone tza) t + k * msPerDay) = 5"
    unfolding k_def by (rule WeekDay_fridayDelta)
  have dF: "Day (LocalTime (fixedZone tza) t + k * msPerDay) = F"
    by (simp add: Day_add_days Suc.prems(1) F_def)
  have F5: "(F + 4) mod 7 = 5" using wF by (simp add: WeekDay_def dF)
  have wX: "WeekDay (X * msPerDay) = 5" using Suc.prems(3) by (simp add: WeekDay_def Day_of_day)
  have "Day (LocalTime (fixedZone tza) t) < Day (X * msPerDay)"
    using Suc.prems(1,2) by (simp add: Day_of_day)
  from friday_between [OF wX this] have FX: "F \<le> X"
    by (simp add: Day_of_day Suc.prems(1) F_def k_def)
  have "t \<le> t + k * msPerDay" using k(1) by (simp add: msPerDay_def)
  moreover have "t + k * msPerDay \<le> t + (X - D) * msPerDay"
    using FX by (simp add: F_def msPerDay_def)
  ultimately have rng: "\<bar>t + k * msPerDay\<bar> \<le> maxTime"
    using Suc.prems(5,6) by linarith
  have nf: "getNextFriday (fixedZone tza) (Date (Some t)) = Date (Some (t + k * msPerDay))"
    using rng by (simp add: getNextFriday_valid k_def getTime_newDate_in_range)
  have lt: "LocalTime (fixedZone tza) (t + k * msPerDay) = LocalTime (fixedZone tza) t + k * msPerDay"
    by (simp add: LocalTime_fixed)
  have gd: "getDate (fixedZone tza) (Date (Some (t + k * msPerDay))) = Some (DateOfDay F)"
    by (simp add: getDate_DateOfDay lt dF)
  have noF: "\<not> (D < Z \<and> Z < F \<and> (Z + 4) mod 7 = 5)" for Z
  proof
    assume a: "D < Z \<and> Z < F \<and> (Z + 4) mod 7 = 5"
    then have "WeekDay (Z * msPerDay) = 5" by (simp add: WeekDay_def Day_of_day)
    moreover have "Day (LocalTime (fixedZone tza) t) < Day (Z * msPerDay)"
      using a Suc.prems(1) by (simp add: Day_of_day)
    ultimately have "F \<le> Z"
      using friday_between [of "Z * msPerDay" "LocalTime (fixedZone tza) t"]
      by (simp add: Day_of_day Suc.prems(1) F_def k_def)
    with a show False by linarith
  qed
  show ?case
  proof (cases "DateOfDay F = 13")
    case True
    have "getNextFridayThe13th (Suc fuel) (fixedZone tza) (Date (Some t)) = Some (Date (Some (t + k * msPerDay)))"
      by (simp add: getNextFridayThe13th_step nf gd True)
    moreover have "D < F" using k(1) by (simp add: F_def)
    moreover have "t + (F - D) * msPerDay = t + k * msPerDay" by (simp add: F_def)
    ultimately show ?thesis using FX F5 True noF by metis
  next
    case False
    then have "F \<noteq> X" using Suc.prems(4) by auto
    with FX have FX': "F < X" by simp
    have step: "getNextFridayThe13th (Suc fuel) (fixedZone tza) (Date (Some t))
                  = getNextFridayThe13th fuel (fixedZone tza) (Date (Some (t + k * msPerDay)))"
      by (simp add: getNextFridayThe13th_step nf gd False)
    have d': "Day (LocalTime (fixedZone tza) (t + k * msPerDay)) = F" by (simp add: lt dF)
    have e: "t + k * msPerDay + (X - F) * msPerDay = t + (X - D) * msPerDay"
      by (simp add: F_def algebra_simps)
    have r': "t + k * msPerDay + (X - F) * msPerDay \<le> maxTime"
      using Suc.prems(6) e by simp
    have "(X - F + 6) div 7 + 1 = (X - D + 6) div 7"
      by (rule friday_weeks [OF Suc.prems(3) F5 F_def k FX])
    then have f': "(X - F + 6) div 7 \<le> int fuel" using Suc.prems(7) by simp
    from Suc.IH [OF d' FX' Suc.prems(3,4) rng r' f']
    obtain X0 where X0: "F < X0" "X0 \<le> X" "(X0 + 4) mod 7 = 5" "DateOfDay X0 = 13"
      "\<forall>Z. F < Z \<and> Z < X0 \<and> (Z + 4) mod 7 = 5 \<longrightarrow> DateOfDay Z \<noteq> 13"
      "getNextFridayThe13th fuel (fixedZone tza) (Date (Some (t + k * msPerDay)))
         = Some (Date (Some (t + k * msPerDay + (X0 - F) * msPerDay)))" by blast
    have "t + k * msPerDay + (X0 - F) * msPerDay = t + (X0 - D) * msPerDay"
      by (simp add: F_def algebra_simps)
    then have res: "getNextFridayThe13th (Suc fuel) (fixedZone tza) (Date (Some t))
                 = Some (Date (Some (t + (X0 - D) * msPerDay)))"
      using X0(6) step by simp
    have "D < X0" using X0(1) k(1) by (simp add: F_def)
    moreover have "\<forall>Z. D < Z \<and> Z < X0 \<and> (Z + 4) mod 7 = 5 \<longrightarrow> DateOfDay Z \<noteq> 13"
    proof (intro allI impI)
      fix Z assume a: "D < Z \<and> Z < X0 \<and> (Z + 4) mod 7 = 5"
      then have "\<not> Z < F" using noF [of Z] by blast
      then have "Z = F \<or> F < Z" by linarith
      then show "DateOfDay Z \<noteq> 13" using False X0(5) a by blast
    qed
    ultimately show ?thesis using X0(2,3,4) res by blast
  qed
qed


lemma getNextFridayThe13th_result:
  assumes "\<bar>t\<bar> \<le> maxTime" and "t + 440 * msPerDay \<le> maxTime"
  shows "\<exists>X0. Day (LocalTime (fixedZone tza) t) < X0 \<and> X0 \<le> Day (LocalTime (fixedZone tza) t) + 440
           \<and> (X0 + 4) mod 7 = 5 \<and> DateOfDay X0 = 13
           \<and> (\<forall>Z. Day (LocalTime (fixedZone tza) t) < Z \<and> Z < X0 \<and> (Z + 4) mod 7 = 5 \<longrightarrow> DateOfDay Z \<noteq> 13)
           \<and> (\<forall>fuel. 63 \<le> fuel \<longrightarrow> getNextFridayThe13th fuel (fixedZone tza) (Date (Some t))
                 = Some (Date (Some (t + (X0 - Day (LocalTime (fixedZone tza) t)) * msPerDay))))"
proof -
  define D where "D = Day (LocalTime (fixedZone tza) t)"
  from friday13_exists [of D] obtain X where
    X: "D < X" "X \<le> D + 440" "(X + 4) mod 7 = 5" "DateOfDay X = 13" by blast
  have "(X - D) * msPerDay \<le> 440 * msPerDay" using X(2) by (simp add: msPerDay_def)
  then have rng: "t + (X - D) * msPerDay \<le> maxTime" using assms(2) by linarith
  have "X - D + 6 \<le> 446" using X(2) by simp
  then have "(X - D + 6) div 7 \<le> 446 div 7" by (rule zdiv_mono1) simp
  then have n: "(X - D + 6) div 7 \<le> 63" by simp
  have search: "\<exists>X0. D < X0 \<and> X0 \<le> X \<and> (X0 + 4) mod 7 = 5 \<and> DateOfDay X0 = 13
           \<and> (\<forall>Z. D < Z \<and> Z < X0 \<and> (Z + 4) mod 7 = 5 \<longrightarrow> DateOfDay Z \<noteq> 13)
           \<and> getNextFridayThe13th fuel (fixedZone tza) (Date (Some t))
                 = Some (Date (Some (t + (X0 - D) * msPerDay)))" if "63 \<le> fuel" for fuel
  proof -
    have "(X - D + 6) div 7 \<le> int fuel" using n that by linarith
    from getNextFridayThe13th_search [OF D_def [symmetric] X(1,3,4) assms(1) rng this]
    show ?thesis .
  qed
  from search [of 63] obtain X0 where
    X0: "D < X0" "X0 \<le> X" "(X0 + 4) mod 7 = 5" "DateOfDay X0 = 13"
      "\<forall>Z. D < Z \<and> Z < X0 \<and> (Z + 4) mod 7 = 5 \<longrightarrow> DateOfDay Z \<noteq> 13" by auto
  have "getNextFridayThe13th fuel (fixedZone tza) (Date (Some t)) = Some (Date (Some (t + (X0 - D) * msPerDay)))"
    if "63 \<le> fuel" for fuel
  proof -
    from search [OF that] obtain X1 where
      X1: "D < X1" "(X1 + 4) mod 7 = 5" "DateOfDay X1 = 13"
        "\<forall>Z. D < Z \<and> Z < X1 \<and> (Z + 4) mod 7 = 5 \<longrightarrow> DateOfDay Z \<noteq> 13"
        "getNextFridayThe13th fuel (fixedZone tza) (Date (Some t)) = Some (Date (Some (t + (X1 - D) * msPerDay)))"
      by blast
    have "\<not> X0 < X1" using X1(4) X0(1,3,4) by blast
    moreover have "\<not> X1 < X0" using X0(5) X1(1,2,3) by blast
    ultimately have "X1 = X0" by linarith
    with X1(5) show ?thesis by simp
  qed
  moreover have "X0 \<le> D + 440" using X0(2) X(2) by linarith
  ultimately show ?thesis using X0(1,3,4,5) unfolding D_def by blast
qed

lemma getNextFridayThe13th_end_of_range:
  assumes "8639999999999999 \<le> t" "t \<le> 8640000000000000"
  shows "getNextFridayThe13th fuel (fixedZone 0) (Date (Some t)) = None"
proof (cases fuel)
  case 0
  then show ?thesis by simp
next
  case (Suc n)
  have w: "1 \<le> fridayDelta (WeekDay (LocalTime (fixedZone 0) t))"
    using WeekDay_range [of "LocalTime (fixedZone 0) t"] by (simp add: fridayDelta_range)
  then have "86400000 \<le> fridayDelta (WeekDay (LocalTime (fixedZone 0) t)) * msPerDay"
    by (simp add: msPerDay_def)
  then have "getNextFriday (fixedZone 0) (Date (Some t)) = Date None"
    using assms by (simp add: getNextFriday_valid newDate_def TimeClip_def maxTime_def)
  then show ?thesis
    by (simp add: Suc getNextFridayThe13th_step getDate_def getNextFridayThe13th_invalid)
qed

text \<open>In New York daylight saving began on 7 April 1991. From Friday 5 April 1991 at 23:30
  (04:30Z of the 6th) seven times 24 hours lead to Saturday 13 April at 00:30, and the
  source, which tests the day of the month only, returns that Saturday.\<close>

lemma newYork1991_saturday_13th:
  "getDay newYork1991 (Date (Some 670912200000)) = Some 5
   \<and> getNextFridayThe13th (Suc fuel) newYork1991 (Date (Some 670912200000))
       = Some (Date (Some 671517000000))
   \<and> getDate newYork1991 (Date (Some 671517000000)) = Some 13
   \<and> getDay newYork1991 (Date (Some 671517000000)) = Some 6"
proof -
  have w: "getDay newYork1991 (Date (Some 670912200000)) = Some 5"
    "getDay newYork1991 (Date (Some 671517000000)) = Some 6"
    by (simp_all add: getDay_def newYork1991_def LocalTime_dstZone WeekDay_def Day_def msPerDay_def)
  have nf: "getNextFriday newYork1991 (Date (Some 670912200000)) = Date (Some 671517000000)"
    by (simp add: getNextFriday_valid newDate_def TimeClip_def maxTime_def newYork1991_def
      LocalTime_dstZone fridayDelta_def WeekDay_def Day_def msPerDay_def)
  have "MakeDay 1991 3 13 = 7772"
    by (simp add: MakeDay_def DayFromYear_def DaysInYear_def DayOfMonthStart_def Let_def)
  moreover have "Day (LocalTime newYork1991 671517000000) = 7772"
    by (simp add: newYork1991_def LocalTime_dstZone Day_def msPerDay_def)
  ultimately have gd: "getDate newYork1991 (Date (Some 671517000000)) = Some 13"
    using DateOfDay_13th [of 1991 3] by (simp add: getDate_def DateFromTime_DateOfDay)
  show ?thesis by (simp add: getNextFridayThe13th_step nf gd w)
qed

text \<open>
  Claim C3, amended. In a zone with a constant offset, for every valid date that lies at
  least 440 days before the end of the range of time values, \<open>getNextFridayThe13th\<close>
  returns (whatever the fuel, from 63 on) a date whose day of the month is 13 and whose
  weekday is Friday, on a calendar day strictly after that of the input, and no instant on
  a calendar day strictly between the two is a Friday the 13th: it is the first Friday the
  13th after the given date.
\<close>

theorem getNextFridayThe13th_first_friday_13th:
  assumes "validDate date" and "getTime date = Some t" and "t + 440 * msPerDay \<le> maxTime"
  shows "\<exists>r. (\<forall>fuel. 63 \<le> fuel \<longrightarrow> getNextFridayThe13th fuel (fixedZone tza) date = Some (Date (Some r)))
           \<and> getDate (fixedZone tza) (Date (Some r)) = Some 13
           \<and> getDay (fixedZone tza) (Date (Some r)) = Some 5
           \<and> t < r
           \<and> Day (LocalTime (fixedZone tza) t) < Day (LocalTime (fixedZone tza) r)
           \<and> (\<forall>x. Day (LocalTime (fixedZone tza) t) < Day (LocalTime (fixedZone tza) x)
                    \<and> Day (LocalTime (fixedZone tza) x) < Day (LocalTime (fixedZone tza) r)
                  \<longrightarrow> \<not> (WeekDay (LocalTime (fixedZone tza) x) = 5 \<and> DateFromTime (LocalTime (fixedZone tza) x) = 13))"
proof -
  define D where "D = Day (LocalTime (fixedZone tza) t)"
  have d: "date = Date (Some t)" using assms(2) by (cases date) simp
  have rng: "\<bar>t\<bar> \<le> maxTime" using assms(1) d by (simp add: validDate_def)
  from getNextFridayThe13th_result [OF rng assms(3), of tza]
  obtain X0 where X0: "D < X0" "(X0 + 4) mod 7 = 5" "DateOfDay X0 = 13"
    "\<forall>Z. D < Z \<and> Z < X0 \<and> (Z + 4) mod 7 = 5 \<longrightarrow> DateOfDay Z \<noteq> 13"
    "\<forall>fuel. 63 \<le> fuel \<longrightarrow> getNextFridayThe13th fuel (fixedZone tza) (Date (Some t))
                 = Some (Date (Some (t + (X0 - D) * msPerDay)))"
    unfolding D_def by blast
  define r where "r = t + (X0 - D) * msPerDay"
  have lt: "LocalTime (fixedZone tza) r = LocalTime (fixedZone tza) t + (X0 - D) * msPerDay"
    by (simp add: r_def LocalTime_fixed)
  have dr: "Day (LocalTime (fixedZone tza) r) = X0" by (simp add: lt Day_add_days D_def)
  have "\<forall>fuel. 63 \<le> fuel \<longrightarrow> getNextFridayThe13th fuel (fixedZone tza) date = Some (Date (Some r))"
    using X0(5) by (simp add: d r_def)
  moreover have "getDate (fixedZone tza) (Date (Some r)) = Some 13"
    by (simp add: getDate_DateOfDay dr X0(3))
  moreover have "getDay (fixedZone tza) (Date (Some r)) = Some 5"
    by (simp add: getDay_def WeekDay_def dr X0(2))
  moreover have "t < r" using X0(1) by (simp add: r_def msPerDay_def)
  moreover have "Day (LocalTime (fixedZone tza) t) < Day (LocalTime (fixedZone tza) r)"
    using X0(1) by (simp add: dr D_def)
  moreover have "\<forall>x. Day (LocalTime (fixedZone tza) t) < Day (LocalTime (fixedZone tza) x)
                    \<and> Day (LocalTime (fixedZone tza) x) < Day (LocalTime (fixedZone tza) r)
                  \<longrightarrow> \<not> (WeekDay (LocalTime (fixedZone tza) x) = 5 \<and> DateFromTime (LocalTime (fixedZone tza) x) = 13)"
    using X0(4) by (simp add: dr D_def WeekDay_def DateFromTime_DateOfDay)
  ultimately show ?thesis by blast
qed


theorem getNextFridayThe13th_first_friday_13th_witness:
  "validDate (Date (Some 1725926400000))
   \<and> getNextFridayThe13th 84 (fixedZone 0) (Date (Some 1725926400000)) = Some (Date (Some 1726185600000))
   \<and> getDate (fixedZone 0) (Date (Some 1726185600000)) = Some 13
   \<and> getDay (fixedZone 0) (Date (Some 1726185600000)) = Some 5"
proof -
  have v: "validDate (Date (Some 1725926400000))"
    by (simp add: validDate_def maxTime_def)
  have g: "getTime (Date (Some 1725926400000)) = Some 1725926400000" by simp
  have b: "1725926400000 + 440 * msPerDay \<le> maxTime"
    by (simp add: msPerDay_def maxTime_def)
  have nf: "getNextFriday (fixedZone 0) (Date (Some 1725926400000)) = Date (Some 1726185600000)"
    by (simp add: getNextFriday_valid newDate_def TimeClip_def maxTime_def
      fridayDelta_def WeekDay_def LocalTime_fixed Day_def msPerDay_def)
  have "MakeDay 2024 8 13 = 19979"
    by (simp add: MakeDay_def DayFromYear_def DaysInYear_def DayOfMonthStart_def Let_def)
  moreover have "Day (LocalTime (fixedZone 0) 1726185600000) = 19979"
    by (simp add: LocalTime_fixed Day_def msPerDay_def)
  ultimately have gd: "getDate (fixedZone 0) (Date (Some 1726185600000)) = Some 13"
    using DateOfDay_13th [of 2024 8] by (simp add: getDate_DateOfDay)
  from getNextFridayThe13th_step [of 83 "fixedZone 0" "Date (Some 1725926400000)"]
  have c: "getNextFridayThe13th 84 (fixedZone 0) (Date (Some 1725926400000))
             = Some (Date (Some 1726185600000))"
    by (simp add: nf gd)
  from getNextFridayThe13th_first_friday_13th [OF v g b, of 0]
  obtain r where r: "\<forall>fuel. 63 \<le> fuel \<longrightarrow>
      getNextFridayThe13th fuel (fixedZone 0) (Date (Some 1725926400000)) = Some (Date (Some r))"
    "getDate (fixedZone 0) (Date (Some r)) = Some 13" "getDay (fixedZone 0) (Date (Some r)) = Some 5" by blast
  from r(1) have "getNextFridayThe13th 84 (fixedZone 0) (Date (Some 1725926400000)) = Some (Date (Some r))"
    by simp
  with c have "r = 1726185600000" by simp
  with r(2,3) v c show ?thesis by simp
qed

text \<open>The claim as stated, for every valid date, fails in two ways. At the last instant of
  the range the next Friday is beyond the range, the date becomes invalid and stays so, and
  the recursion never reaches a day 13 (in JavaScript it ends in a stack overflow). And in
  New York, from Friday 5 April 1991 at 23:30, the result is Saturday 13 April 1991.\<close>

theorem getNextFridayThe13th_end_of_range_counterexample:
  "validDate (Date (Some 8640000000000000))
   \<and> getNextFridayThe13th 84 (fixedZone 0) (Date (Some 8640000000000000)) = None
   \<and> getNextFridayThe13th 100000 (fixedZone 0) (Date (Some 8640000000000000)) = None
   \<and> validDate (Date (Some 670912200000))
   \<and> getNextFridayThe13th 84 newYork1991 (Date (Some 670912200000))
       = Some (Date (Some 671517000000))
   \<and> getDay newYork1991 (Date (Some 671517000000)) = Some 6"
  using newYork1991_saturday_13th [of 83]
  by (simp add: validDate_def maxTime_def getNextFridayThe13th_end_of_range)

text \<open>
  Claim C8, amended. In a zone with a constant offset, for every valid date that lies at
  least 440 days before the end of the range of time values, the recursion of
  \<open>getNextFridayThe13th\<close> ends on a Friday whose day of the month is 13 after at most 63
  advances to the next Friday, hence within 84: a fuel of 84 calls returns that date.
\<close>

theorem getNextFridayThe13th_terminates:
  assumes "validDate date" and "getTime date = Some t" and "t + 440 * msPerDay \<le> maxTime"
  shows "\<exists>n r. n \<le> 63 \<and> getNextFridayThe13th n (fixedZone tza) date = Some r
           \<and> getNextFridayThe13th 84 (fixedZone tza) date = Some r
           \<and> getDay (fixedZone tza) r = Some 5 \<and> getDate (fixedZone tza) r = Some 13"
proof -
  define D where "D = Day (LocalTime (fixedZone tza) t)"
  have d: "date = Date (Some t)" using assms(2) by (cases date) simp
  have rng: "\<bar>t\<bar> \<le> maxTime" using assms(1) d by (simp add: validDate_def)
  from getNextFridayThe13th_result [OF rng assms(3), of tza]
  obtain X0 where X0: "(X0 + 4) mod 7 = 5" "DateOfDay X0 = 13"
    "\<forall>fuel. 63 \<le> fuel \<longrightarrow> getNextFridayThe13th fuel (fixedZone tza) (Date (Some t))
                 = Some (Date (Some (t + (X0 - D) * msPerDay)))"
    unfolding D_def by blast
  define r where "r = t + (X0 - D) * msPerDay"
  have lt: "LocalTime (fixedZone tza) r = LocalTime (fixedZone tza) t + (X0 - D) * msPerDay"
    by (simp add: r_def LocalTime_fixed)
  have dr: "Day (LocalTime (fixedZone tza) r) = X0" by (simp add: lt Day_add_days D_def)
  have "getNextFridayThe13th 63 (fixedZone tza) date = Some (Date (Some r))"
    using X0(3) by (simp add: d r_def)
  moreover have "getNextFridayThe13th 84 (fixedZone tza) date = Some (Date (Some r))"
    using X0(3) by (simp add: d r_def)
  moreover have "getDate (fixedZone tza) (Date (Some r)) = Some 13"
    by (simp add: getDate_DateOfDay dr X0(2))
  moreover have "getDay (fixedZone tza) (Date (Some r)) = Some 5"
    by (simp add: getDay_def WeekDay_def dr X0(1))
  ultimately show ?thesis by blast
qed

theorem getNextFridayThe13th_terminates_witness:
  "validDate (Date (Some 1675209600000))
   \<and> (\<exists>r. getNextFridayThe13th 84 (fixedZone 0) (Date (Some 1675209600000)) = Some r
          \<and> getDay (fixedZone 0) r = Some 5 \<and> getDate (fixedZone 0) r = Some 13)"
proof -
  have v: "validDate (Date (Some 1675209600000))"
    by (simp add: validDate_def maxTime_def)
  have g: "getTime (Date (Some 1675209600000)) = Some 1675209600000" by simp
  have b: "1675209600000 + 440 * msPerDay \<le> maxTime"
    by (simp add: msPerDay_def maxTime_def)
  from getNextFridayThe13th_terminates [OF v g b, of 0] v show ?thesis by blast
qed

text \<open>On the last Friday of the range no fuel is enough, 84 in particular. And in New York,
  from Friday 5 April 1991 at 23:30, the recursion ends after one advance on a day 13
  that is a Saturday.\<close>

theorem getNextFridayThe13th_no_termination_counterexample:
  "validDate (Date (Some 8639999999999999))
   \<and> getDay (fixedZone 0) (Date (Some 8639999999999999)) = Some 5
   \<and> getNextFridayThe13th 84 (fixedZone 0) (Date (Some 8639999999999999)) = None
   \<and> validDate (Date (Some 670912200000))
   \<and> getNextFridayThe13th 1 newYork1991 (Date (Some 670912200000))
       = Some (Date (Some 671517000000))
   \<and> getDate newYork1991 (Date (Some 671517000000)) = Some 13
   \<and> getDay newYork1991 (Date (Some 671517000000)) = Some 6"
proof -
  have "getDay (fixedZone 0) (Date (Some 8639999999999999)) = Some 5"
    by (simp add: getDay_def WeekDay_def LocalTime_fixed Day_def msPerDay_def)
  then show ?thesis
    using newYork1991_saturday_13th [of 0]
    by (simp add: validDate_def maxTime_def getNextFridayThe13th_end_of_range)
qed

section \<open>The work schedule\<close>

subsection \<open>Digits, numbers and splitting\<close>

lemma digitChar_cases:
  "n < 10 \<Longrightarrow> n \<in> {0, 1, 2, 3, 4, 5, 6, 7, 8, 9::nat}"
  by auto

lemma digitValue_digitChar: "n < 10 \<Longrightarrow> digitValue (digitChar n) = Some n"
  using digitChar_cases [of n]
  by (auto simp: digitValue_def digitChar_def decimalDigits_def upt_rec)

lemma digitChar_not_dash: "n < 10 \<Longrightarrow> digitChar n \<noteq> CHR ''-''"
  using digitChar_cases [of n]
  by (auto simp: digitChar_def decimalDigits_def)

lemma digitValue_zero: "digitValue CHR ''0'' = Some 0"
  by (simp add: digitValue_def decimalDigits_def upt_rec)

lemma digitsValue_append:
  "digitsValue acc (xs @ ys) =
     (case digitsValue acc xs of None \<Rightarrow> None | Some a \<Rightarrow> digitsValue a ys)"
  by (induction xs arbitrary: acc) (simp_all split: option.splits)

lemma digitsValue_zeros: "digitsValue 0 (replicate k CHR ''0'') = Some 0"
  by (induction k) (simp_all add: digitValue_zero)

lemma digitsValue_digits: "digitsValue 0 (digits n) = Some n"
proof (induction n rule: digits.induct)
  case (1 n)
  show ?case
  proof (cases "n < 10")
    case True
    then have "digits n = [digitChar n]" by (subst digits.simps) simp
    then show ?thesis using True by (simp add: digitValue_digitChar)
  next
    case False
    have "digits n = digits (n div 10) @ [digitChar (n mod 10)]"
      using False by (subst digits.simps) simp
    then show ?thesis
      using 1 [OF False] by (simp add: digitsValue_append digitValue_digitChar)
  qed
qed

lemma digits_not_empty: "digits n \<noteq> []"
  by (subst digits.simps) simp

lemma dash_not_in_digits: "CHR ''-'' \<notin> set (digits n)"
proof (induction n rule: digits.induct)
  case (1 n)
  show ?case
  proof (cases "n < 10")
    case True
    then show ?thesis using digitChar_not_dash [of n] by (subst digits.simps) auto
  next
    case False
    have "digits n = digits (n div 10) @ [digitChar (n mod 10)]"
      using False by (subst digits.simps) simp
    then show ?thesis
      using 1 [OF False] digitChar_not_dash [of "n mod 10"] by auto
  qed
qed

lemma ToNumber_padded:
  "ToNumber (Some (padStart k CHR ''0'' (digits n))) = Some (int n)"
  by (simp add: ToNumber_def padStart_def digits_not_empty digitsValue_append digitsValue_zeros
      digitsValue_digits)

lemma dash_not_in_padded: "CHR ''-'' \<notin> set (padStart k CHR ''0'' (digits n))"
  using dash_not_in_digits [of n] by (auto simp: padStart_def)

lemma split_no_separator: "c \<notin> set a \<Longrightarrow> split c a = [a]"
  by (induction a) auto

lemma split_at_separator: "c \<notin> set a \<Longrightarrow> split c (a @ c # rest) = a # split c rest"
  by (induction a) auto

lemma toString_nonneg: "0 \<le> x \<Longrightarrow> toString (Some x) = digits (nat x)"
  by (simp add: toString_def)

lemma split_formatDDMMYYYY:
  assumes "0 \<le> dd" "0 \<le> mm" "0 \<le> yyyy"
  shows "split CHR ''-'' (formatDDMMYYYY dd mm yyyy) =
           [padStart 2 CHR ''0'' (digits (nat dd)), padStart 2 CHR ''0'' (digits (nat mm)),
            padStart 4 CHR ''0'' (digits (nat yyyy))]"
  using assms
  by (simp add: formatDDMMYYYY_def toString_nonneg split_at_separator split_no_separator
      dash_not_in_padded)

lemma components_formatDDMMYYYY:
  assumes "0 \<le> dd" "0 \<le> mm" "0 \<le> yyyy"
  shows "ToNumber (element (split CHR ''-'' (formatDDMMYYYY dd mm yyyy)) 2) = Some yyyy"
    and "ToNumber (element (split CHR ''-'' (formatDDMMYYYY dd mm yyyy)) 1) = Some mm"
    and "ToNumber (element (split CHR ''-'' (formatDDMMYYYY dd mm yyyy)) 0) = Some dd"
  using assms
  by (simp_all add: split_formatDDMMYYYY element_def ToNumber_padded)


subsection \<open>The days of the period\<close>

lemma listOfDatesLoop_days:
  assumes "\<bar>tza\<bar> \<le> msPerDay" and "- 99999990 \<le> a" and "e \<le> 99999980"
  shows "listOfDatesLoop (Date (Some (a * msPerDay - tza))) (Date (Some (e * msPerDay - tza))) acc
           = acc @ map (\<lambda>i. Date (Some ((a + int i) * msPerDay - tza))) [0 ..< nat (e - a + 1)]"
  using assms(2)
proof (induction "nat (e - a + 1)" arbitrary: a acc)
  case 0
  then have "e < a" by linarith
  then have "\<not> a * msPerDay - tza \<le> e * msPerDay - tza" by (simp add: msPerDay_def)
  then show ?case using 0
    by (subst listOfDatesLoop.simps) (simp add: num_le_def)
next
  case (Suc n)
  then have le: "a \<le> e" by linarith
  then have c: "a * msPerDay - tza \<le> e * msPerDay - tza" by (simp add: msPerDay_def)
  have n: "n = nat (e - (a + 1) + 1)" using Suc.hyps(2) by linarith
  have a1: "- 99999990 \<le> a + 1" using Suc.prems by simp
  have "\<bar>(a + 1) * msPerDay - tza\<bar> \<le> maxTime"
    using assms(1,3) le Suc.prems by (simp add: msPerDay_def maxTime_def)
  moreover have "a * msPerDay - tza + 1000 * 60 * 60 * 24 = (a + 1) * msPerDay - tza"
    by (simp add: msPerDay_def algebra_simps)
  ultimately have nx: "newDate (num_add (getTime (Date (Some (a * msPerDay - tza))))
                         (Some (1000 * 60 * 60 * 24))) = Date (Some ((a + 1) * msPerDay - tza))"
    by (simp add: num_add_def newDate_def TimeClip_def)
  have up: "[0 ..< nat (e - a + 1)] = 0 # map Suc [0 ..< nat (e - (a + 1) + 1)]"
    using Suc.hyps(2) n by (simp add: upt_conv_Cons map_Suc_upt del: upt_Suc)
  have "listOfDatesLoop (Date (Some (a * msPerDay - tza))) (Date (Some (e * msPerDay - tza))) acc
          = listOfDatesLoop (Date (Some ((a + 1) * msPerDay - tza))) (Date (Some (e * msPerDay - tza)))
              (acc @ [Date (Some (a * msPerDay - tza))])"
    using c by (subst listOfDatesLoop.simps) (simp only: nx, simp add: num_le_def)
  also have "\<dots> = (acc @ [Date (Some (a * msPerDay - tza))])
        @ map (\<lambda>i. Date (Some ((a + 1 + int i) * msPerDay - tza))) [0 ..< nat (e - (a + 1) + 1)]"
    by (rule Suc.hyps(1) [OF n a1])
  also have "\<dots> = acc @ map (\<lambda>i. Date (Some ((a + int i) * msPerDay - tza))) [0 ..< nat (e - a + 1)]"
    unfolding up by (simp add: o_def algebra_simps)
  finally show ?case .
qed

lemma pushTimes_replicate: "pushTimes n v xs = xs @ replicate n v"
  by (induction n arbitrary: xs) (simp_all add: replicate_app_Cons_same)

lemma element_schedule:
  assumes "i < wd + od"
  shows "element (replicate wd (1::int) @ replicate od 0) i = Some 0 \<longleftrightarrow> \<not> i < wd"
  using assms by (simp add: element_def nth_append)

lemma keep_index:
  assumes "0 < wd + od"
  shows "(if index < length (replicate wd (1::int) @ replicate od 0)
          then (if element (replicate wd (1::int) @ replicate od 0) index = Some 0 then False else True)
          else if index \<ge> length (replicate wd (1::int) @ replicate od 0)
          then (if length (replicate wd (1::int) @ replicate od 0) \<noteq> 0
                   \<and> element (replicate wd (1::int) @ replicate od 0)
                        (index mod length (replicate wd (1::int) @ replicate od 0)) = Some 0
                then False else True)
          else True) \<longleftrightarrow> index mod (wd + od) < wd"
proof (cases "index < wd + od")
  case True
  then show ?thesis using element_schedule [OF True] by simp
next
  case False
  have "index mod (wd + od) < wd + od" using assms by simp
  from element_schedule [OF this] False assms show ?thesis by simp
qed

lemma filter_by_index:
  "map fst (filter (\<lambda>(x, index). P index) (zip (map f [0 ..< n]) [0 ..< length (map f [0 ..< n])]))
     = map f (filter P [0 ..< n])"
proof -
  have "zip (map f [0 ..< n]) [0 ..< n] = map (\<lambda>i. (f i, i)) [0 ..< n]"
    by (simp add: zip_map1 zip_same_conv_map)
  then show ?thesis by (simp add: filter_map o_def)
qed

lemma MonthFromTime_MonthOfDay: "MonthFromTime t = MonthOfDay (Day t)"
  by (simp add: MonthOfDay_def MonthFromTime_def DayWithinYear_def
      InLeapYear_def YearFromTime_def Day_of_day)

lemma fields_local_midnight:
  "getDate (fixedZone tza) (Date (Some (n * msPerDay - tza))) = Some (DateOfDay n)"
  "getMonth (fixedZone tza) (Date (Some (n * msPerDay - tza))) = Some (MonthOfDay n)"
  "getFullYear (fixedZone tza) (Date (Some (n * msPerDay - tza))) = Some (YearFromDay n)"
  by (simp_all add: getDate_DateOfDay getMonth_def MonthFromTime_MonthOfDay getFullYear_def
      YearFromTime_def Day_local_midnight)


lemma MakeDay_range_4digit:
  assumes "0 \<le> y" "y \<le> 9999" "0 \<le> m" "m \<le> 11" "1 \<le> d" "d \<le> 62"
  shows "- 99999990 \<le> MakeDay (adjustYear y) m d" and "MakeDay (adjustYear y) m d \<le> 99999980"
proof -
  let ?yr = "adjustYear y"
  have yr: "0 \<le> ?yr" "?yr \<le> 9999" using assms(1,2) by (auto simp: adjustYear_def)
  have lo: "DayFromYear 0 = - 719528" by (simp add: DayFromYear_def)
  have hi: "DayFromYear 9999 = 2932532" by (simp add: DayFromYear_def)
  have a: "- 719528 \<le> DayFromYear ?yr" using DayFromYear_mono [OF yr(1)] lo by linarith
  have b: "DayFromYear ?yr \<le> 2932532" using DayFromYear_mono [OF yr(2)] hi by linarith
  have c: "0 \<le> DayOfMonthStart (leapDay ?yr) m"
    "DayOfMonthStart (leapDay ?yr) m + DaysInMonth (leapDay ?yr) m \<le> 365 + leapDay ?yr"
    using DayOfMonthStart_bounds [OF assms(3,4) leapDay_bounds [of ?yr]] by simp_all
  have l: "leapDay ?yr \<le> 1" "28 \<le> DaysInMonth (leapDay ?yr) m"
    using leapDay_bounds(2) DaysInMonth_bounds(1) [OF leapDay_bounds [of ?yr]] by simp_all
  have e: "MakeDay ?yr m d = DayFromYear ?yr + DayOfMonthStart (leapDay ?yr) m + d - 1"
    using assms(3,4) by (simp add: MakeDay_month)
  show "- 99999990 \<le> MakeDay ?yr m d" using e a c(1) assms(5) by linarith
  show "MakeDay ?yr m d \<le> 99999980" using e b c(2) l assms(6) by linarith
qed

lemma newDateYMD_4digit:
  assumes "\<bar>tza\<bar> \<le> msPerDay" "0 \<le> y" "y \<le> 9999" "0 \<le> m" "m \<le> 11" "1 \<le> d" "d \<le> 62"
  shows "newDateYMD (fixedZone tza) (Some y) (Some m) (Some d)
           = Date (Some (MakeDay (adjustYear y) m d * msPerDay - tza))"
  using assms by (intro newDateYMD_month_day) simp_all

lemma getWorkSchedule_source_days:
  assumes "\<bar>tza\<bar> \<le> msPerDay"
    and "0 \<le> y1" "y1 \<le> 9999" "1 \<le> m1" "m1 \<le> 12" "1 \<le> d1" "d1 \<le> 31"
    and "0 \<le> y2" "y2 \<le> 9999" "1 \<le> m2" "m2 \<le> 12" "1 \<le> d2" "d2 \<le> 31"
    and "start period = formatDDMMYYYY d1 m1 y1" and "end' period = formatDDMMYYYY d2 m2 y2"
    and "0 < wd + od"
  shows "getWorkSchedule (fixedZone tza) period wd od =
     map (\<lambda>i. sourceFormatDay (MakeDay (adjustYear y1) (m1 - 1) d1 + int i))
       (filter (\<lambda>i. i mod (wd + od) < wd)
         [0 ..< nat (MakeDay (adjustYear y2) (m2 - 1) d2 - MakeDay (adjustYear y1) (m1 - 1) d1 + 1)])"
proof -
  define a where "a = MakeDay (adjustYear y1) (m1 - 1) d1"
  define e where "e = MakeDay (adjustYear y2) (m2 - 1) d2"
  have p1: "0 \<le> d1" "0 \<le> m1" using assms(4,6) by simp_all
  have p2: "0 \<le> d2" "0 \<le> m2" using assms(10,12) by simp_all
  note c1 = components_formatDDMMYYYY [OF p1 assms(2)]
  note c2 = components_formatDDMMYYYY [OF p2 assms(8)]
  have s1: "num_sub (Some m1) (Some 1) = Some (m1 - 1)" by (simp add: num_sub_def)
  have s2: "num_sub (Some m2) (Some 1) = Some (m2 - 1)" by (simp add: num_sub_def)
  have sd: "newDateYMD (fixedZone tza) (Some y1) (Some (m1 - 1)) (Some d1) = Date (Some (a * msPerDay - tza))"
    unfolding a_def using assms(1-7) by (intro newDateYMD_4digit) simp_all
  have ed: "newDateYMD (fixedZone tza) (Some y2) (Some (m2 - 1)) (Some d2) = Date (Some (e * msPerDay - tza))"
    unfolding e_def using assms(1,8-13) by (intro newDateYMD_4digit) simp_all
  have ra: "- 99999990 \<le> a"
    unfolding a_def using assms(2-7) by (intro MakeDay_range_4digit(1)) simp_all
  have re: "e \<le> 99999980"
    unfolding e_def using assms(8-13) by (intro MakeDay_range_4digit(2)) simp_all
  note loop = listOfDatesLoop_days [OF assms(1) ra re, of "[]"]
  have "getWorkSchedule (fixedZone tza) period wd od =
     map (\<lambda>date.
               padStart 2 CHR ''0'' (toString (getDate (fixedZone tza) date)) @ ''-'' @
               padStart 2 CHR ''0'' (toString (num_add (getMonth (fixedZone tza) date) (Some 1))) @ ''-'' @
               toString (getFullYear (fixedZone tza) date))
       (map (\<lambda>i. Date (Some ((a + int i) * msPerDay - tza)))
         (filter (\<lambda>i. i mod (wd + od) < wd) [0 ..< nat (e - a + 1)]))"
    unfolding getWorkSchedule_def Let_def assms(14,15) c1 c2 s1 s2 sd ed loop pushTimes_replicate
      append_Nil keep_index [OF assms(16)] filter_by_index ..
  also have "\<dots> = map (\<lambda>i. sourceFormatDay (a + int i))
         (filter (\<lambda>i. i mod (wd + od) < wd) [0 ..< nat (e - a + 1)])"
    by (simp add: o_def fields_local_midnight sourceFormatDay_def num_add_def)
  finally show ?thesis unfolding a_def e_def .
qed


subsection \<open>The schedule\<close>

lemma YearFromDay_mono:
  assumes "a \<le> b"
  shows "YearFromDay a \<le> YearFromDay b"
proof (rule ccontr)
  assume "\<not> YearFromDay a \<le> YearFromDay b"
  then have "YearFromDay b + 1 \<le> YearFromDay a" by simp
  then have "DayFromYear (YearFromDay b + 1) \<le> DayFromYear (YearFromDay a)"
    by (rule DayFromYear_mono)
  with YearFromDay_bounds [of a] YearFromDay_bounds [of b] assms show False by linarith
qed

lemma fields_of_MakeDay:
  assumes "0 \<le> m" "m \<le> 11" "1 \<le> dt" "dt \<le> DaysInMonth (leapDay y) m"
  shows "YearFromDay (MakeDay y m dt) = y" and "MonthOfDay (MakeDay y m dt) = m"
    and "DateOfDay (MakeDay y m dt) = dt"
  using civil_of_day [OF assms Day_of_day]
  by (simp_all add: YearFromTime_def MonthOfDay_def DateOfDay_def Day_of_day)

lemma formatDay_MakeDay:
  assumes "0 \<le> m" "m \<le> 11" "1 \<le> dt" "dt \<le> DaysInMonth (leapDay y) m"
  shows "formatDay (MakeDay y m dt) = formatDDMMYYYY dt (m + 1) y"
    and "sourceFormatDay (MakeDay y m dt) =
           padStart 2 CHR ''0'' (toString (Some dt)) @ ''-'' @
           padStart 2 CHR ''0'' (toString (Some (m + 1))) @ ''-'' @ toString (Some y)"
  by (simp_all add: formatDay_def sourceFormatDay_def fields_of_MakeDay [OF assms])

lemma length_digits_1000: "1000 \<le> n \<Longrightarrow> 4 \<le> length (digits n)"
proof -
  assume n: "1000 \<le> n"
  have a: "digits n = digits (n div 10) @ [digitChar (n mod 10)]"
    using n by (subst digits.simps) simp
  have "100 \<le> n div 10" using n by simp
  then have b: "digits (n div 10) = digits (n div 10 div 10) @ [digitChar (n div 10 mod 10)]"
    by (subst digits.simps) simp
  have "10 \<le> n div 10 div 10" using n by simp
  then have c: "digits (n div 10 div 10)
      = digits (n div 10 div 10 div 10) @ [digitChar (n div 10 div 10 mod 10)]"
    by (subst digits.simps) simp
  have "Suc 0 \<le> length (digits (n div 10 div 10 div 10))"
    using digits_not_empty [of "n div 10 div 10 div 10"]
    by (cases "digits (n div 10 div 10 div 10)") simp_all
  then show ?thesis unfolding a b c by simp
qed

lemma sourceFormatDay_formatDay:
  assumes "1000 \<le> YearFromDay d"
  shows "sourceFormatDay d = formatDay d"
proof -
  have "1000 \<le> nat (YearFromDay d)" using assms by simp
  from length_digits_1000 [OF this]
  have "padStart 4 CHR ''0'' (digits (nat (YearFromDay d))) = digits (nat (YearFromDay d))"
    by (simp add: padStart_def)
  then show ?thesis using assms
    by (simp add: sourceFormatDay_def formatDay_def formatDDMMYYYY_def toString_nonneg)
qed

text \<open>
  Claim C6, amended. In a zone with a constant offset (of at most a day), for every period
  whose two dates are calendar dates with a year from 1000 to 9999, written as
  \<^verbatim>\<open>DD-MM-YYYY\<close>, and positive numbers of work days and of days off,
  \<open>getWorkSchedule\<close> returns, in chronological order, exactly the calendar days from the
  start to the end inclusive whose offset from the start (counted from 0), modulo the
  length of the cycle, is less than the number of work days, each written as
  \<^verbatim>\<open>DD-MM-YYYY\<close>. (When the end is before the start the list is empty.)
\<close>

theorem getWorkSchedule_work_days:
  assumes "\<bar>tza\<bar> \<le> msPerDay"
    and "1000 \<le> y1" "y1 \<le> 9999" "1 \<le> m1" "m1 \<le> 12"
    and "1 \<le> d1" "d1 \<le> DaysInMonth (leapDay y1) (m1 - 1)"
    and "1000 \<le> y2" "y2 \<le> 9999" "1 \<le> m2" "m2 \<le> 12"
    and "1 \<le> d2" "d2 \<le> DaysInMonth (leapDay y2) (m2 - 1)"
    and "start period = formatDDMMYYYY d1 m1 y1" and "end' period = formatDDMMYYYY d2 m2 y2"
    and "0 < countWorkDays" and "0 < countOffDays"
  shows "getWorkSchedule (fixedZone tza) period countWorkDays countOffDays =
     map (\<lambda>i. formatDay (MakeDay y1 (m1 - 1) d1 + int i))
       (filter (\<lambda>i. i mod (countWorkDays + countOffDays) < countWorkDays)
         [0 ..< nat (MakeDay y2 (m2 - 1) d2 - MakeDay y1 (m1 - 1) d1 + 1)])"
proof -
  have a1: "adjustYear y1 = y1" using assms(2) by (simp add: adjustYear_def)
  have a2: "adjustYear y2 = y2" using assms(8) by (simp add: adjustYear_def)
  have l1: "d1 \<le> 31"
    using assms(7) DaysInMonth_bounds(2) [OF leapDay_bounds [of y1], of "m1 - 1"] by linarith
  have l2: "d2 \<le> 31"
    using assms(13) DaysInMonth_bounds(2) [OF leapDay_bounds [of y2], of "m2 - 1"] by linarith
  have y1: "0 \<le> y1" using assms(2) by simp
  have y2: "0 \<le> y2" using assms(8) by simp
  have pos: "0 < countWorkDays + countOffDays" using assms(16) by simp
  have m1: "0 \<le> m1 - 1" "m1 - 1 \<le> 11" using assms(4,5) by simp_all
  have ys: "YearFromDay (MakeDay y1 (m1 - 1) d1) = y1"
    by (rule fields_of_MakeDay(1) [OF m1 assms(6,7)])
  have same: "sourceFormatDay (MakeDay y1 (m1 - 1) d1 + int i)
                = formatDay (MakeDay y1 (m1 - 1) d1 + int i)" for i
  proof -
    have "YearFromDay (MakeDay y1 (m1 - 1) d1) \<le> YearFromDay (MakeDay y1 (m1 - 1) d1 + int i)"
      by (rule YearFromDay_mono) simp
    then have "1000 \<le> YearFromDay (MakeDay y1 (m1 - 1) d1 + int i)"
      using ys assms(2) by linarith
    then show ?thesis by (rule sourceFormatDay_formatDay)
  qed
  from getWorkSchedule_source_days [OF assms(1) y1 assms(3,4,5,6) l1 y2 assms(9,10,11,12) l2
      assms(14,15) pos]
  show ?thesis unfolding a1 a2 same .
qed


theorem getWorkSchedule_work_days_witness:
  "getWorkSchedule (fixedZone 0) \<lparr>start = ''01-01-2024'', end' = ''15-01-2024''\<rparr> 1 3
     = [''01-01-2024'', ''05-01-2024'', ''09-01-2024'', ''13-01-2024'']"
proof -
  have z: "\<bar>0::int\<bar> \<le> msPerDay" by (simp add: msPerDay_def)
  have l: "DaysInMonth (leapDay 2024) 0 = 31" by (simp add: DaysInMonth_def)
  have s: "start \<lparr>start = ''01-01-2024'', end' = ''15-01-2024''\<rparr> = formatDDMMYYYY 1 1 2024"
    by code_simp
  have e: "end' \<lparr>start = ''01-01-2024'', end' = ''15-01-2024''\<rparr> = formatDDMMYYYY 15 1 2024"
    by code_simp
  have n: "nat (MakeDay 2024 (1 - 1) 15 - MakeDay 2024 (1 - 1) 1 + 1) = 15"
    using MakeDay_add_day [of 2024 0 1 14] by simp
  have f: "filter (\<lambda>i. i mod (1 + 3) < 1) [0 ..< 15] = [0, 4, 8, 12::nat]"
    by code_simp
  have d: "formatDay (MakeDay 2024 (1 - 1) 1 + int i) = formatDDMMYYYY (1 + int i) 1 2024"
    if "i \<le> 30" for i
    using that MakeDay_add_day [of 2024 0 1 "int i"] formatDay_MakeDay(1) [of 0 "1 + int i" 2024]
    by (simp add: DaysInMonth_def)
  have t: "formatDDMMYYYY 1 1 2024 = ''01-01-2024''" "formatDDMMYYYY 5 1 2024 = ''05-01-2024''"
    "formatDDMMYYYY 9 1 2024 = ''09-01-2024''" "formatDDMMYYYY 13 1 2024 = ''13-01-2024''"
    by code_simp+
  from getWorkSchedule_work_days [of 0 2024 1 1 2024 1 15
      "\<lparr>start = ''01-01-2024'', end' = ''15-01-2024''\<rparr>" 1 3] z s e
  have "getWorkSchedule (fixedZone 0) \<lparr>start = ''01-01-2024'', end' = ''15-01-2024''\<rparr> 1 3
          = map (\<lambda>i. formatDay (MakeDay 2024 (1 - 1) 1 + int i))
              (filter (\<lambda>i. i mod (1 + 3) < 1)
                [0 ..< nat (MakeDay 2024 (1 - 1) 15 - MakeDay 2024 (1 - 1) 1 + 1)])"
    by (simp add: l)
  also have "\<dots> = map (\<lambda>i. formatDay (MakeDay 2024 (1 - 1) 1 + int i)) [0, 4, 8, 12]"
    by (simp only: n f)
  also have "\<dots> = [''01-01-2024'', ''05-01-2024'', ''09-01-2024'', ''13-01-2024'']"
    using d [of 0] d [of 4] d [of 8] d [of 12] t by simp
  finally show ?thesis .
qed

text \<open>The claim as stated, for every period in \<^verbatim>\<open>DD-MM-YYYY\<close>, fails for a year from 0000
  to 0099, which the \<^verbatim>\<open>Date\<close> constructor reads as 1900 to 1999: the schedule of the
  one-day period 01-01-0050 is a day of 1950. (A year from 0100 to 0999 is kept, but
  printed without padding, on three digits.) It also fails where the offset changes within
  the period, since the source steps by 24 hours: in New York, for the period from
  08-03-2024 to 12-03-2024 and one work day in two, the step after 11 March lands an hour
  after the midnight of the 12th and the last day is lost.\<close>

theorem getWorkSchedule_two_digit_year_counterexample:
  "getWorkSchedule (fixedZone 0) \<lparr>start = ''01-01-0050'', end' = ''01-01-0050''\<rparr> 1 1 = [''01-01-1950'']
   \<and> getWorkSchedule newYork2024 \<lparr>start = ''08-03-2024'', end' = ''12-03-2024''\<rparr> 1 1
       = [''08-03-2024'', ''10-03-2024'']"
proof -
  have ny: "getWorkSchedule newYork2024 \<lparr>start = ''08-03-2024'', end' = ''12-03-2024''\<rparr> 1 1
       = [''08-03-2024'', ''10-03-2024'']"
    by code_simp
  have z: "\<bar>0::int\<bar> \<le> msPerDay" by (simp add: msPerDay_def)
  have s: "start \<lparr>start = ''01-01-0050'', end' = ''01-01-0050''\<rparr> = formatDDMMYYYY 1 1 50"
    by code_simp
  have e: "end' \<lparr>start = ''01-01-0050'', end' = ''01-01-0050''\<rparr> = formatDDMMYYYY 1 1 50"
    by code_simp
  have a: "adjustYear 50 = 1950" by (simp add: adjustYear_def)
  have f: "filter (\<lambda>i. i mod (1 + 1) < 1) [0 ..< 1] = [0::nat]" by code_simp
  have t: "padStart 2 CHR ''0'' (toString (Some 1)) @ ''-'' @
           padStart 2 CHR ''0'' (toString (Some (0 + 1))) @ ''-'' @ toString (Some 1950)
             = ''01-01-1950''"
    by code_simp
  have d: "sourceFormatDay (MakeDay 1950 0 1) = ''01-01-1950''"
    using formatDay_MakeDay(2) [of 0 1 1950] t by (simp add: DaysInMonth_def)
  from getWorkSchedule_source_days [of 0 50 1 1 50 1 1
      "\<lparr>start = ''01-01-0050'', end' = ''01-01-0050''\<rparr>" 1 1] z s e
  have "getWorkSchedule (fixedZone 0) \<lparr>start = ''01-01-0050'', end' = ''01-01-0050''\<rparr> 1 1
          = map (\<lambda>i. sourceFormatDay (MakeDay (adjustYear 50) (1 - 1) 1 + int i))
              (filter (\<lambda>i. i mod (1 + 1) < 1)
                [0 ..< nat (MakeDay (adjustYear 50) (1 - 1) 1 - MakeDay (adjustYear 50) (1 - 1) 1 + 1)])"
    by simp
  also have "\<dots> = [''01-01-1950'']"
    using f by (simp add: a d)
  finally have "getWorkSchedule (fixedZone 0) \<lparr>start = ''01-01-0050'', end' = ''01-01-0050''\<rparr> 1 1
          = [''01-01-1950'']" .
  from this ny show ?thesis by (rule conjI)
qed

end
